theory Spec2Isabelle
  imports Main "HOL-Library.AList"
begin

section \<open>Strings as Python uses them\<close>

text \<open>
  Python strings are modelled as \<^typ>\<open>string\<close>, one \<^typ>\<open>char\<close> per code point, for the
  code points U+0000 to U+00FF. In that range \<open>str.isspace\<close> holds for the code points
  9 to 13, 28 to 31, 32, 133 (U+0085, next line) and 160 (U+00A0, no-break space); the
  same class is what \<open>str.strip()\<close>, \<open>str.split()\<close> and the pattern \<open>\s\<close> use.
\<close>

definition is_space :: "char \<Rightarrow> bool" where
  "is_space c = (c \<in> set [CHR 0x09, CHR 0x0A, CHR 0x0B, CHR 0x0C, CHR 0x0D,
                            CHR 0x1C, CHR 0x1D, CHR 0x1E, CHR 0x1F, CHR 0x20,
                            CHR 0x85, CHR 0xA0])"

definition is_digit :: "char \<Rightarrow> bool" where
  "is_digit c = (c \<in> set ''0123456789'')"

text \<open>\<open>s.strip()\<close>: leading and trailing whitespace removed.\<close>

definition strip :: "string \<Rightarrow> string" where
  "strip s = rev (dropWhile is_space (rev (dropWhile is_space s)))"

text \<open>\<open>s.split()\<close>: the maximal runs of non-whitespace, in order; no empty strings.\<close>

fun split_ws_aux :: "string \<Rightarrow> string \<Rightarrow> string list" where
  "split_ws_aux cur [] = (if cur = [] then [] else [rev cur])"
| "split_ws_aux cur (c # cs) =
     (if is_space c then (if cur = [] then split_ws_aux [] cs else rev cur # split_ws_aux [] cs)
      else split_ws_aux (c # cur) cs)"

definition split_ws :: "string \<Rightarrow> string list" where
  "split_ws s = split_ws_aux [] s"

text \<open>\<open>s.split(sep)\<close> for a one-character separator: always at least one part.\<close>

fun split_on_aux :: "char \<Rightarrow> string \<Rightarrow> string \<Rightarrow> string list" where
  "split_on_aux sep cur [] = [rev cur]"
| "split_on_aux sep cur (c # cs) =
     (if c = sep then rev cur # split_on_aux sep [] cs else split_on_aux sep (c # cur) cs)"

definition split_on :: "char \<Rightarrow> string \<Rightarrow> string list" where
  "split_on sep s = split_on_aux sep [] s"

text \<open>\<open>needle in hay\<close> for strings: a contiguous occurrence.\<close>

fun is_prefix :: "string \<Rightarrow> string \<Rightarrow> bool" where
  "is_prefix [] ys = True"
| "is_prefix (x # xs) [] = False"
| "is_prefix (x # xs) (y # ys) = (x = y \<and> is_prefix xs ys)"

fun contains :: "string \<Rightarrow> string \<Rightarrow> bool" where
  "contains needle [] = (needle = [])"
| "contains needle (c # cs) = (is_prefix needle (c # cs) \<or> contains needle cs)"

text \<open>
  \<open>s.lower()\<close>: the capital letters of the range are A to Z and U+00C0 to U+00DE without
  the multiplication sign U+00D7; the small letter of each is 32 code points above it.
\<close>

definition lower_char :: "char \<Rightarrow> char" where
  "lower_char c =
     (let n = (of_char c :: nat) in
      if (65 \<le> n \<and> n \<le> 90) \<or> (192 \<le> n \<and> n \<le> 214) \<or> (216 \<le> n \<and> n \<le> 222)
      then char_of (n + 32) else c)"

definition lower :: "string \<Rightarrow> string" where
  "lower s = map lower_char s"

text \<open>
  \<open>s.upper()\<close>: the small letters a to z and U+00E0 to U+00FE without the division sign
  U+00F7 have their capital 32 code points below them; the sharp s U+00DF becomes the two
  letters \<open>SS\<close>, so the result of one code point is a string. Two letters of the range
  have a capital outside it: the micro sign U+00B5 (capital U+039C) and y with diaeresis
  U+00FF (capital U+0178). No \<^typ>\<open>char\<close> denotes these capitals; \<open>upper_char\<close> leaves the
  two letters as they are, and a string that holds one of them is outside what this
  development describes wherever its capitals are taken.
\<close>

definition upper_char :: "char \<Rightarrow> string" where
  "upper_char c =
     (let n = (of_char c :: nat) in
      if (97 \<le> n \<and> n \<le> 122) \<or> (224 \<le> n \<and> n \<le> 246) \<or> (248 \<le> n \<and> n \<le> 254)
      then [char_of (n - 32)]
      else if n = 223 then ''SS''
      else [c])"

definition upper :: "string \<Rightarrow> string" where
  "upper s = concat (map upper_char s)"

text \<open>\<open>int(s)\<close> on a string of decimal digits.\<close>

definition digit_val :: "char \<Rightarrow> nat" where
  "digit_val c =
     (case map_of (zip ''0123456789'' [0, 1, 2, 3, 4, 5, 6, 7, 8, 9]) c of
        Some d \<Rightarrow> d | None \<Rightarrow> 0)"

definition int_of_digits :: "string \<Rightarrow> nat" where
  "int_of_digits s = foldl (\<lambda>acc c. 10 * acc + digit_val c) 0 s"

section \<open>Configuration: days and shifts\<close>

text \<open>
  \<open>DAYS\<close> and the keys of \<open>SHIFT_SLOTS\<close> are fixed enumerations of the module. A grid is
  indexed by exactly the six days, and a shift other than the two keys raises KeyError on
  the first lookup; the model takes both as datatypes.
\<close>

datatype day = Mon | Tue | Wed | Thu | Fri | Sat

definition DAYS :: "day list" where
  "DAYS = [Mon, Tue, Wed, Thu, Fri, Sat]"

datatype shift = S8_3 | S10_5

fun SHIFT_SLOTS :: "shift \<Rightarrow> string list" where
  "SHIFT_SLOTS S8_3 =
     [''8-8:45'', ''8:45-9:45'',
      ''9:45-10:00 Short Break'',
      ''10:00-11:00'', ''11:00-12:00'',
      ''12:00-12:45 Lunch Break'',
      ''12:45-1:45'', ''1:45-2:45'']"
| "SHIFT_SLOTS S10_5 =
     [''10:00-11:00'', ''11:00-12:00'',
      ''12:00-12:45 Lunch Break'',
      ''12:45-1:45'', ''1:45-2:45'',
      ''2:45-3:00 Short Break'',
      ''3-4'', ''4-5'']"

definition FREE_DAY_LABEL :: string where
  "FREE_DAY_LABEL = ''COMPETITIVE EXAM/SUNCLUBS/SPORT''"

section \<open>Slot canonicalization\<close>

datatype py_error = ValueError | IndexError

text \<open>
  The pattern \<open>^(\d{1,2})(?::(\d{1,2}))?$\<close> applied to a stripped token: the result is
  the two groups, the second absent when the token has no colon part. \<open>\d\<close> is a decimal
  digit; the first group takes all leading digits, since what follows it can only be a
  colon or the end.
\<close>

definition digits12 :: "string \<Rightarrow> bool" where
  "digits12 s = (1 \<le> length s \<and> length s \<le> 2 \<and> list_all is_digit s)"

definition RE_TIME_PART :: "string \<Rightarrow> (string \<times> string option) option" where
  "RE_TIME_PART tok =
     (let g1 = takeWhile is_digit tok; rest = dropWhile is_digit tok in
      if \<not> digits12 g1 then None
      else if rest = [] then Some (g1, None)
      else if hd rest = CHR '':'' \<and> digits12 (tl rest) then Some (g1, Some (tl rest))
      else None)"

definition parse_time_token :: "string \<Rightarrow> py_error + nat" where
  "parse_time_token tok =
     (case RE_TIME_PART (strip tok) of
        None \<Rightarrow> Inl ValueError
      | Some (g1, g2) \<Rightarrow>
          (let hh = int_of_digits g1;
               mm = (case g2 of None \<Rightarrow> 0 | Some g \<Rightarrow> int_of_digits g);
               hh' = (if hh < 8 then hh + 12 else hh)
           in Inr (hh' * 60 + mm)))"

definition slot_label_to_canonical :: "string \<Rightarrow> py_error + (nat \<times> nat)" where
  "slot_label_to_canonical slot_label =
     (case split_ws slot_label of
        [] \<Rightarrow> Inl IndexError
      | main # _ \<Rightarrow>
          (case split_on CHR ''-'' main of
             [a, b] \<Rightarrow>
               (case parse_time_token (strip a) of
                  Inl e \<Rightarrow> Inl e
                | Inr start \<Rightarrow>
                    (case parse_time_token (strip b) of
                       Inl e \<Rightarrow> Inl e
                     | Inr end' \<Rightarrow> Inr (start, end')))
           | _ \<Rightarrow> Inl ValueError))"

text \<open>
  \<open>CANONICAL_MAP[shift].get(label)\<close>: the table is built at import time from the labels of
  \<open>SHIFT_SLOTS[shift]\<close>, any exception of the parser stored as \<open>None\<close>; a label that is not
  a key reads as \<open>None\<close> too.
\<close>

definition CANONICAL_MAP :: "shift \<Rightarrow> string \<Rightarrow> (nat \<times> nat) option" where
  "CANONICAL_MAP sh label =
     (if label \<in> set (SHIFT_SLOTS sh)
      then (case slot_label_to_canonical label of Inl _ \<Rightarrow> None | Inr canon \<Rightarrow> Some canon)
      else None)"

definition slots_equivalent :: "shift \<Rightarrow> string \<Rightarrow> shift \<Rightarrow> string \<Rightarrow> bool" where
  "slots_equivalent shift_a label_a shift_b label_b =
     (case (CANONICAL_MAP shift_a label_a, CANONICAL_MAP shift_b label_b) of
        (Some ca, Some cb) \<Rightarrow> fst ca = fst cb \<and> snd ca = snd cb
      | _ \<Rightarrow> False)"

definition pair_slots_equivalent ::
  "shift \<Rightarrow> string \<Rightarrow> string \<Rightarrow> shift \<Rightarrow> string \<Rightarrow> string \<Rightarrow> bool" where
  "pair_slots_equivalent shift_a a1 a2 shift_b b1 b2 =
     (slots_equivalent shift_a a1 shift_b b1 \<and> slots_equivalent shift_a a2 shift_b b2)"

section \<open>Grids\<close>

text \<open>
  A grid is the dictionary \<open>{day: {slot: cell}}\<close>, created with exactly the six keys of
  \<open>DAYS\<close> and never given another, so it is a value with one row per day. A day's row is
  kept as an association list in insertion order, because the code enumerates its keys and
  values; an assignment \<open>tbl[day][slot] = v\<close> replaces the value of an existing key and
  appends a new key otherwise, which is \<^const>\<open>AList.update\<close>.
\<close>

type_synonym row = "(string \<times> string) list"

datatype table = Table row row row row row row

fun row_of :: "table \<Rightarrow> day \<Rightarrow> row" where
  "row_of (Table r1 r2 r3 r4 r5 r6) Mon = r1"
| "row_of (Table r1 r2 r3 r4 r5 r6) Tue = r2"
| "row_of (Table r1 r2 r3 r4 r5 r6) Wed = r3"
| "row_of (Table r1 r2 r3 r4 r5 r6) Thu = r4"
| "row_of (Table r1 r2 r3 r4 r5 r6) Fri = r5"
| "row_of (Table r1 r2 r3 r4 r5 r6) Sat = r6"

fun set_row :: "table \<Rightarrow> day \<Rightarrow> row \<Rightarrow> table" where
  "set_row (Table r1 r2 r3 r4 r5 r6) Mon r = Table r r2 r3 r4 r5 r6"
| "set_row (Table r1 r2 r3 r4 r5 r6) Tue r = Table r1 r r3 r4 r5 r6"
| "set_row (Table r1 r2 r3 r4 r5 r6) Wed r = Table r1 r2 r r4 r5 r6"
| "set_row (Table r1 r2 r3 r4 r5 r6) Thu r = Table r1 r2 r3 r r5 r6"
| "set_row (Table r1 r2 r3 r4 r5 r6) Fri r = Table r1 r2 r3 r4 r r6"
| "set_row (Table r1 r2 r3 r4 r5 r6) Sat r = Table r1 r2 r3 r4 r5 r"

definition is_inert :: "string \<Rightarrow> bool" where
  "is_inert s = (contains ''Break'' s \<or> contains ''Lunch'' s)"

definition cell_get :: "table \<Rightarrow> day \<Rightarrow> string \<Rightarrow> string" where
  "cell_get tbl d slot = (case map_of (row_of tbl d) slot of None \<Rightarrow> [] | Some v \<Rightarrow> v)"

definition cell_set :: "table \<Rightarrow> day \<Rightarrow> string \<Rightarrow> string \<Rightarrow> table" where
  "cell_set tbl d slot v = set_row tbl d (AList.update slot v (row_of tbl d))"

definition empty_table_for_shift :: "shift \<Rightarrow> table" where
  "empty_table_for_shift sh =
     foldl (\<lambda>tbl d.
        foldl (\<lambda>tbl s. cell_set tbl d s (if is_inert s then s else [])) tbl (SHIFT_SLOTS sh))
       (Table [] [] [] [] [] []) DAYS"

fun adjacent_pairs :: "'a list \<Rightarrow> ('a \<times> 'a) list" where
  "adjacent_pairs (a # b # rest) = (a, b) # adjacent_pairs (b # rest)"
| "adjacent_pairs _ = []"

definition consecutive_pairs_for_shift :: "shift \<Rightarrow> (string \<times> string) list" where
  "consecutive_pairs_for_shift sh =
     filter (\<lambda>(a, b).
        \<not> (is_inert a \<or> is_inert b) \<and>
        \<not> (CANONICAL_MAP sh a = None \<or> CANONICAL_MAP sh b = None))
       (adjacent_pairs (SHIFT_SLOTS sh))"

section \<open>Constraint predicates\<close>

definition free_slot :: "table \<Rightarrow> day \<Rightarrow> string \<Rightarrow> bool" where
  "free_slot tbl d slot =
     (let v = strip (cell_get tbl d slot) in
      if v = [] then True
      else
        (let up = upper v in
         if contains (upper FREE_DAY_LABEL) up \<or> contains ''COMPETITIVE'' up \<or>
            contains ''SUNCLUBS'' up \<or> contains ''SPORT'' up \<or> contains ''HOLIDAY'' up
         then False
         else if contains ''BREAK'' up \<or> contains ''LUNCH'' up \<or> v = ''MERGE''
         then False
         else False))"

definition free_pair :: "table \<Rightarrow> day \<Rightarrow> string \<Rightarrow> string \<Rightarrow> bool" where
  "free_pair tbl d s1 s2 = (free_slot tbl d s1 \<and> free_slot tbl d s2)"

definition day_has_subject :: "table \<Rightarrow> day \<Rightarrow> string \<Rightarrow> bool" where
  "day_has_subject tbl d subject =
     (let target = lower (strip subject) in
      if target = [] then False
      else list_ex (\<lambda>v. contains target (lower v)) (map snd (row_of tbl d)))"

definition day_has_division :: "table \<Rightarrow> day \<Rightarrow> string \<Rightarrow> string \<Rightarrow> bool" where
  "day_has_division tbl d sem div' =
     (let needle_sem = lower (''sem'' @ sem); needle_div = lower (''div'' @ div') in
      list_ex (\<lambda>v. let low = filter (\<lambda>c. c \<noteq> CHR '' '') (lower v)
                    in contains needle_sem low \<and> contains needle_div low)
        (map snd (row_of tbl d)))"

definition is_slot_allowed_for_10_5_on_8_3 :: "string \<Rightarrow> bool" where
  "is_slot_allowed_for_10_5_on_8_3 slot_label =
     (let canon =
        (if slot_label \<in> set (SHIFT_SLOTS S8_3) then CANONICAL_MAP S8_3 slot_label
         else if slot_label \<in> set (SHIFT_SLOTS S10_5) then CANONICAL_MAP S10_5 slot_label
         else None)
      in case canon of None \<Rightarrow> False | Some (start, end') \<Rightarrow> start \<ge> 600)"

definition division_slot_allowed_for_faculty :: "shift \<Rightarrow> shift \<Rightarrow> string \<Rightarrow> bool" where
  "division_slot_allowed_for_faculty fac_shift div_shift slot_label =
     (if fac_shift = S10_5 \<and> div_shift = S8_3
      then is_slot_allowed_for_10_5_on_8_3 slot_label else True)"

definition division_pair_allowed_for_faculty ::
  "shift \<Rightarrow> shift \<Rightarrow> string \<times> string \<Rightarrow> bool" where
  "division_pair_allowed_for_faculty fac_shift div_shift pair =
     (if fac_shift = S10_5 \<and> div_shift = S8_3
      then is_slot_allowed_for_10_5_on_8_3 (fst pair) \<and>
           is_slot_allowed_for_10_5_on_8_3 (snd pair)
      else True)"

section \<open>Free-day settings and division grids\<close>

text \<open>
  \<open>FREE_DAY_SETTINGS\<close> is the module's dictionary from \<open>(sem, div)\<close> to the list of
  selected days, in insertion order. The engine only reads it; the model passes it along
  as \<open>fds\<close>. Semesters are strings, so \<open>str(sem)\<close> is the identity.
\<close>

type_synonym settings = "((string \<times> string) \<times> day list) list"

definition normalize_token :: "string \<Rightarrow> string" where
  "normalize_token s = upper (filter (\<lambda>c. \<not> is_space c) (strip s))"

definition fds_get :: "settings \<Rightarrow> string \<Rightarrow> string \<Rightarrow> day list" where
  "fds_get fds sem div' =
     (case map_of fds (sem, normalize_token div') of None \<Rightarrow> [] | Some ds \<Rightarrow> ds)"

definition is_division_holiday :: "settings \<Rightarrow> string \<Rightarrow> string \<Rightarrow> day \<Rightarrow> bool" where
  "is_division_holiday fds sem div' d = (d \<in> set (fds_get fds sem div'))"

definition holiday_text :: "string \<Rightarrow> string \<Rightarrow> string" where
  "holiday_text sem div' = FREE_DAY_LABEL @ '' (Sem'' @ sem @ '' Div'' @ div' @ '')''"

record dentry =
  d_shift :: shift
  d_table :: table

text \<open>
  The two stores \<open>ftables\<close> (by faculty short name) and \<open>dtables\<close> (by \<open>(sem, div)\<close>)
  are dictionaries in insertion order.
\<close>

type_synonym dtables = "((string \<times> string) \<times> dentry) list"
type_synonym ftables = "(string \<times> table) list"

definition mark_holidays :: "table \<Rightarrow> shift \<Rightarrow> string \<Rightarrow> string \<Rightarrow> day list \<Rightarrow> table" where
  "mark_holidays tbl div_shift sem div' holidays =
     foldl (\<lambda>tbl hday.
        foldl (\<lambda>tbl slot. if is_inert slot then tbl
                           else cell_set tbl hday slot (holiday_text sem div'))
          tbl (SHIFT_SLOTS div_shift))
       tbl holidays"

definition ensure_div_table ::
  "settings \<Rightarrow> dtables \<Rightarrow> string \<Rightarrow> string \<Rightarrow> shift \<Rightarrow> dtables \<times> table \<times> shift" where
  "ensure_div_table fds dts sem div' div_shift =
     (case map_of dts (sem, div') of
        Some e \<Rightarrow> (dts, d_table e, d_shift e)
      | None \<Rightarrow>
          (let tbl = mark_holidays (empty_table_for_shift div_shift) div_shift sem div'
                       (fds_get fds sem div')
           in (AList.update (sem, div') \<lparr>d_shift = div_shift, d_table = tbl\<rparr> dts,
               tbl, div_shift)))"

section \<open>Randomness\<close>

text \<open>
  The only use of the process-wide generator is \<open>random.sample(DAYS, len(DAYS))\<close>, a
  reordering of the six days. The generator's state is modelled by the sequence of
  samples it is going to return: a call returns the next one and advances.
\<close>

type_synonym rng = "nat \<Rightarrow> day list"

definition sample :: "rng \<Rightarrow> day list \<times> rng" where
  "sample r = (r 0, \<lambda>n. r (Suc n))"

section \<open>Placement\<close>

text \<open>
  The placers are nested \<open>for\<close> loops in which every test that fails is a \<open>continue\<close> and
  the first candidate that passes all tests is written and returned. \<^term>\<open>first_some\<close>
  is that loop: the first element of the list for which the body yields a result.
\<close>

fun first_some :: "('a \<Rightarrow> 'b option) \<Rightarrow> 'a list \<Rightarrow> 'b option" where
  "first_some body [] = None"
| "first_some body (x # xs) =
     (case body x of Some y \<Rightarrow> Some y | None \<Rightarrow> first_some body xs)"

definition theory_ftext :: "string \<Rightarrow> string \<Rightarrow> string \<Rightarrow> string" where
  "theory_ftext subject sem div' = subject @ '' (Sem'' @ sem @ '' Div'' @ div' @ '')''"

definition theory_dtext :: "string \<Rightarrow> string \<Rightarrow> string" where
  "theory_dtext subject fname = subject @ '' ('' @ fname @ '')''"

definition lab_ftext :: "string \<Rightarrow> string \<Rightarrow> string \<Rightarrow> string \<Rightarrow> string" where
  "lab_ftext subject sem div' batch_label =
     subject @ '' Lab (Sem'' @ sem @ '' Div'' @ div' @ '') ['' @ batch_label @ '']''"

definition lab_dtext :: "string \<Rightarrow> string \<Rightarrow> string \<Rightarrow> string" where
  "lab_dtext subject fname batch_label =
     subject @ '' Lab ('' @ fname @ '') ['' @ batch_label @ '']''"

text \<open>A candidate found by a scan: faculty day and slot(s), division day and slot(s).\<close>

type_synonym theory_place = "day \<times> string \<times> day \<times> string"
type_synonym lab_place = "day \<times> (string \<times> string) \<times> day \<times> (string \<times> string)"

definition write_theory ::
  "table \<Rightarrow> table \<Rightarrow> string \<Rightarrow> string \<Rightarrow> string \<Rightarrow> string \<Rightarrow> theory_place \<Rightarrow> table \<times> table" where
  "write_theory ftbl dtbl fname sem div' subject p =
     (case p of (fday, fslot, dday, dslot) \<Rightarrow>
        (cell_set ftbl fday fslot (theory_ftext subject sem div'),
         cell_set dtbl dday dslot (theory_dtext subject fname)))"

definition write_lab ::
  "table \<Rightarrow> table \<Rightarrow> string \<Rightarrow> string \<Rightarrow> string \<Rightarrow> string \<Rightarrow> string \<Rightarrow> lab_place
     \<Rightarrow> table \<times> table" where
  "write_lab ftbl dtbl fname sem div' subject batch_label p =
     (case p of (fday, (fs1, fs2), dday, (ds1, ds2)) \<Rightarrow>
        (cell_set (cell_set ftbl fday fs1 (lab_ftext subject sem div' batch_label))
           fday fs2 ''MERGE'',
         cell_set (cell_set dtbl dday ds1 (lab_dtext subject fname batch_label))
           dday ds2 ''MERGE''))"

subsection \<open>Lock pass\<close>

text \<open>The slot loops of \<open>lock_theory\<close> for one day (the same in both of its day loops).\<close>

definition theory_scan_day ::
  "table \<Rightarrow> table \<Rightarrow> shift \<Rightarrow> shift \<Rightarrow> day \<Rightarrow> theory_place option" where
  "theory_scan_day ftbl dtbl fshift dshift d =
     first_some (\<lambda>fslot.
        if is_inert fslot then None
        else if \<not> free_slot ftbl d fslot then None
        else first_some (\<lambda>dslot.
               if is_inert dslot then None
               else if \<not> free_slot dtbl d dslot then None
               else if \<not> slots_equivalent fshift fslot dshift dslot then None
               else if \<not> division_slot_allowed_for_faculty fshift dshift dslot then None
               else Some (d, fslot, d, dslot))
             (SHIFT_SLOTS dshift))
       (SHIFT_SLOTS fshift)"

definition lock_theory ::
  "settings \<Rightarrow> table \<Rightarrow> table \<Rightarrow> shift \<Rightarrow> shift \<Rightarrow> string \<Rightarrow> string \<Rightarrow> string \<Rightarrow> string
     \<Rightarrow> bool \<Rightarrow> rng \<Rightarrow> bool \<times> table \<times> table \<times> rng" where
  "lock_theory fds ftbl dtbl fshift dshift fname sem div' subject avoid_dup r =
     (case sample r of (days1, r1) \<Rightarrow>
        (case first_some (\<lambda>d.
                if avoid_dup \<and> day_has_division dtbl d sem div' then None
                else if avoid_dup \<and> day_has_subject dtbl d subject then None
                else if is_division_holiday fds sem div' d then None
                else theory_scan_day ftbl dtbl fshift dshift d) days1 of
           Some p \<Rightarrow>
             (case write_theory ftbl dtbl fname sem div' subject p of
                (ftbl', dtbl') \<Rightarrow> (True, ftbl', dtbl', r1))
         | None \<Rightarrow>
             (case sample r1 of (days2, r2) \<Rightarrow>
                (case first_some (theory_scan_day ftbl dtbl fshift dshift) days2 of
                   Some p \<Rightarrow>
                     (case write_theory ftbl dtbl fname sem div' subject p of
                        (ftbl', dtbl') \<Rightarrow> (True, ftbl', dtbl', r2))
                 | None \<Rightarrow> (False, ftbl, dtbl, r2)))))"

text \<open>The pair loops of \<open>lock_lab\<close> for one day (its first day loop).\<close>

definition lab_scan_day ::
  "table \<Rightarrow> table \<Rightarrow> shift \<Rightarrow> shift \<Rightarrow> day \<Rightarrow> lab_place option" where
  "lab_scan_day ftbl dtbl fshift dshift d =
     first_some (\<lambda>(fs1, fs2).
        if \<not> free_pair ftbl d fs1 fs2 then None
        else first_some (\<lambda>(ds1, ds2).
               if \<not> free_pair dtbl d ds1 ds2 then None
               else if \<not> pair_slots_equivalent fshift fs1 fs2 dshift ds1 ds2 then None
               else if \<not> division_pair_allowed_for_faculty fshift dshift (ds1, ds2) then None
               else Some (d, (fs1, fs2), d, (ds1, ds2)))
             (consecutive_pairs_for_shift dshift))
       (consecutive_pairs_for_shift fshift)"

text \<open>
  The division side of the second loop nest of \<open>lock_lab\<close>, for a faculty day and pair
  already chosen, over a sampled order of division days.
\<close>

definition lab_flex_div ::
  "table \<Rightarrow> shift \<Rightarrow> shift \<Rightarrow> string \<Rightarrow> string \<Rightarrow> bool \<Rightarrow> day \<Rightarrow> string \<times> string
     \<Rightarrow> day list \<Rightarrow> lab_place option" where
  "lab_flex_div dtbl fshift dshift sem div' avoid_dup fday fp ddays =
     first_some (\<lambda>dday.
        if avoid_dup \<and> day_has_division dtbl dday sem div' then None
        else first_some (\<lambda>(ds1, ds2).
               if \<not> free_pair dtbl dday ds1 ds2 then None
               else if \<not> pair_slots_equivalent fshift (fst fp) (snd fp) dshift ds1 ds2 then None
               else if \<not> division_pair_allowed_for_faculty fshift dshift (ds1, ds2) then None
               else Some (fday, fp, dday, (ds1, ds2)))
             (consecutive_pairs_for_shift dshift))
       ddays"

text \<open>
  The second loop nest of \<open>lock_lab\<close>: for each faculty day and each free faculty pair a
  fresh sample of the days is drawn for the division, so the generator is threaded through
  the loop. The candidates are the (day, pair) combinations in loop order.
\<close>

fun lab_flex_scan ::
  "table \<Rightarrow> table \<Rightarrow> shift \<Rightarrow> shift \<Rightarrow> string \<Rightarrow> string \<Rightarrow> bool
     \<Rightarrow> (day \<times> (string \<times> string)) list \<Rightarrow> rng \<Rightarrow> lab_place option \<times> rng" where
  "lab_flex_scan ftbl dtbl fshift dshift sem div' avoid_dup [] r = (None, r)"
| "lab_flex_scan ftbl dtbl fshift dshift sem div' avoid_dup ((fday, fp) # rest) r =
     (if \<not> free_pair ftbl fday (fst fp) (snd fp)
      then lab_flex_scan ftbl dtbl fshift dshift sem div' avoid_dup rest r
      else
        (case sample r of (ddays, r') \<Rightarrow>
           (case lab_flex_div dtbl fshift dshift sem div' avoid_dup fday fp ddays of
              Some p \<Rightarrow> (Some p, r')
            | None \<Rightarrow> lab_flex_scan ftbl dtbl fshift dshift sem div' avoid_dup rest r')))"

definition lock_lab ::
  "settings \<Rightarrow> table \<Rightarrow> table \<Rightarrow> shift \<Rightarrow> shift \<Rightarrow> string \<Rightarrow> string \<Rightarrow> string \<Rightarrow> string
     \<Rightarrow> string \<Rightarrow> bool \<Rightarrow> rng \<Rightarrow> bool \<times> table \<times> table \<times> rng" where
  "lock_lab fds ftbl dtbl fshift dshift fname sem div' subject batch_label avoid_dup r =
     (case sample r of (days1, r1) \<Rightarrow>
        (case first_some (\<lambda>d.
                if avoid_dup \<and> day_has_division dtbl d sem div' then None
                else if avoid_dup \<and> day_has_subject dtbl d subject then None
                else if is_division_holiday fds sem div' d then None
                else lab_scan_day ftbl dtbl fshift dshift d) days1 of
           Some p \<Rightarrow>
             (case write_lab ftbl dtbl fname sem div' subject batch_label p of
                (ftbl', dtbl') \<Rightarrow> (True, ftbl', dtbl', r1))
         | None \<Rightarrow>
             (case sample r1 of (fdays, r2) \<Rightarrow>
                (case lab_flex_scan ftbl dtbl fshift dshift sem div' avoid_dup
                        (List.product fdays (consecutive_pairs_for_shift fshift)) r2 of
                   (Some p, r3) \<Rightarrow>
                     (case write_lab ftbl dtbl fname sem div' subject batch_label p of
                        (ftbl', dtbl') \<Rightarrow> (True, ftbl', dtbl', r3))
                 | (None, r3) \<Rightarrow> (False, ftbl, dtbl, r3)))))"

subsection \<open>Force pass\<close>

definition teaching_slots :: "shift \<Rightarrow> string list" where
  "teaching_slots sh =
     filter (\<lambda>s. \<not> contains ''Break'' s \<and> \<not> contains ''Lunch'' s) (SHIFT_SLOTS sh)"

definition force_theory_tight ::
  "settings \<Rightarrow> table \<Rightarrow> table \<Rightarrow> shift \<Rightarrow> shift \<Rightarrow> string \<Rightarrow> string \<Rightarrow> theory_place option" where
  "force_theory_tight fds ftbl dtbl fshift dshift sem div' =
     first_some (\<lambda>d.
        if is_division_holiday fds sem div' d then None
        else first_some (\<lambda>fs.
               if \<not> free_slot ftbl d fs then None
               else first_some (\<lambda>ds.
                      if \<not> free_slot dtbl d ds then None
                      else if \<not> slots_equivalent fshift fs dshift ds then None
                      else if \<not> division_slot_allowed_for_faculty fshift dshift ds then None
                      else Some (d, fs, d, ds))
                    (teaching_slots dshift))
             (teaching_slots fshift))
       DAYS"

definition force_theory_relaxed ::
  "table \<Rightarrow> table \<Rightarrow> shift \<Rightarrow> shift \<Rightarrow> theory_place option" where
  "force_theory_relaxed ftbl dtbl fshift dshift =
     first_some (\<lambda>dday.
        first_some (\<lambda>ds.
          if \<not> free_slot dtbl dday ds then None
          else first_some (\<lambda>fday.
                 first_some (\<lambda>fs.
                   if \<not> free_slot ftbl fday fs then None
                   else if \<not> slots_equivalent fshift fs dshift ds then None
                   else if \<not> division_slot_allowed_for_faculty fshift dshift ds then None
                   else Some (fday, fs, dday, ds))
                 (teaching_slots fshift))
               DAYS)
          (teaching_slots dshift))
       DAYS"

definition force_place_theory ::
  "settings \<Rightarrow> table \<Rightarrow> table \<Rightarrow> shift \<Rightarrow> shift \<Rightarrow> string \<Rightarrow> string \<Rightarrow> string \<Rightarrow> string
     \<Rightarrow> bool \<times> table \<times> table" where
  "force_place_theory fds ftbl dtbl fshift dshift fname sem div' subject =
     (case force_theory_tight fds ftbl dtbl fshift dshift sem div' of
        Some p \<Rightarrow>
          (case write_theory ftbl dtbl fname sem div' subject p of
             (ftbl', dtbl') \<Rightarrow> (True, ftbl', dtbl'))
      | None \<Rightarrow>
          (case force_theory_relaxed ftbl dtbl fshift dshift of
             Some p \<Rightarrow>
               (case write_theory ftbl dtbl fname sem div' subject p of
                  (ftbl', dtbl') \<Rightarrow> (True, ftbl', dtbl'))
           | None \<Rightarrow> (False, ftbl, dtbl)))"

definition force_lab_tight ::
  "settings \<Rightarrow> table \<Rightarrow> table \<Rightarrow> shift \<Rightarrow> shift \<Rightarrow> string \<Rightarrow> string \<Rightarrow> lab_place option" where
  "force_lab_tight fds ftbl dtbl fshift dshift sem div' =
     first_some (\<lambda>d.
        if is_division_holiday fds sem div' d then None
        else first_some (\<lambda>(fs1, fs2).
               if \<not> free_pair ftbl d fs1 fs2 then None
               else first_some (\<lambda>(ds1, ds2).
                      if \<not> free_pair dtbl d ds1 ds2 then None
                      else if \<not> pair_slots_equivalent fshift fs1 fs2 dshift ds1 ds2 then None
                      else if \<not> division_pair_allowed_for_faculty fshift dshift (ds1, ds2)
                      then None
                      else Some (d, (fs1, fs2), d, (ds1, ds2)))
                    (consecutive_pairs_for_shift dshift))
             (consecutive_pairs_for_shift fshift))
       DAYS"

definition force_lab_relaxed ::
  "table \<Rightarrow> table \<Rightarrow> shift \<Rightarrow> shift \<Rightarrow> lab_place option" where
  "force_lab_relaxed ftbl dtbl fshift dshift =
     first_some (\<lambda>dday.
        first_some (\<lambda>(ds1, ds2).
          if \<not> free_pair dtbl dday ds1 ds2 then None
          else first_some (\<lambda>fday.
                 first_some (\<lambda>(fs1, fs2).
                   if \<not> free_pair ftbl fday fs1 fs2 then None
                   else if \<not> pair_slots_equivalent fshift fs1 fs2 dshift ds1 ds2 then None
                   else Some (fday, (fs1, fs2), dday, (ds1, ds2)))
                 (consecutive_pairs_for_shift fshift))
               DAYS)
          (consecutive_pairs_for_shift dshift))
       DAYS"

definition force_place_lab ::
  "settings \<Rightarrow> table \<Rightarrow> table \<Rightarrow> shift \<Rightarrow> shift \<Rightarrow> string \<Rightarrow> string \<Rightarrow> string \<Rightarrow> string
     \<Rightarrow> string \<Rightarrow> bool \<times> table \<times> table" where
  "force_place_lab fds ftbl dtbl fshift dshift fname sem div' subject batch_label =
     (case force_lab_tight fds ftbl dtbl fshift dshift sem div' of
        Some p \<Rightarrow>
          (case write_lab ftbl dtbl fname sem div' subject batch_label p of
             (ftbl', dtbl') \<Rightarrow> (True, ftbl', dtbl'))
      | None \<Rightarrow>
          (case force_lab_relaxed ftbl dtbl fshift dshift of
             Some p \<Rightarrow>
               (case write_lab ftbl dtbl fname sem div' subject batch_label p of
                  (ftbl', dtbl') \<Rightarrow> (True, ftbl', dtbl'))
           | None \<Rightarrow> (False, ftbl, dtbl)))"

section \<open>Scheduler driver\<close>

text \<open>
  A subject entry is the dictionary of one obligation and a faculty the dictionary of one
  faculty member; the fields are the keys the engine reads (\<open>Holidays\<close> is read by the
  HTTP entry point only). The two loops of the driver select the entries whose \<open>Type\<close> is
  \<open>"Lab"\<close> and \<open>"Theory"\<close>. Counts are natural numbers: \<open>range(n)\<close> is empty for
  \<open>n \<le> 0\<close>.
\<close>

datatype subject_type = LabT | TheoryT

record subject_entry =
  Type :: subject_type
  Semester :: string
  Division :: string
  Div_Shift :: shift
  Subject :: string
  Theory_Classes :: nat
  Num_Labs :: nat
  Batches :: "string list"
  Batches_Grouped :: bool
  Holidays :: "day list"

record faculty =
  Name :: string
  Shift :: shift
  Subjects :: "subject_entry list"

text \<open>A pending task: what \<open>assign_subjects_for_faculty\<close> appends when a lock call fails.\<close>

datatype task =
  TheoryTask string string shift string string shift
| LabTask string string shift string string string shift

text \<open>
  Every call of a placer ends with exactly one log record: \<open>[SUCCESS]\<close> or \<open>[TRY-FAIL]\<close>
  for the lock placers, \<open>[FORCE]\<close>, \<open>[FORCE-RELAX]\<close> or \<open>[FAILED FORCE]\<close> for the force
  placers. The log of the model keeps these records, with the faculty and the outcome.
\<close>

datatype event =
  LockLab string bool
| LockTheory string bool
| ForceTheory string bool
| ForceLab string bool

fun is_lock :: "event \<Rightarrow> bool" where
  "is_lock (LockLab _ _) = True"
| "is_lock (LockTheory _ _) = True"
| "is_lock _ = False"

fun is_force :: "event \<Rightarrow> bool" where
  "is_force (ForceTheory _ _) = True"
| "is_force (ForceLab _ _) = True"
| "is_force _ = False"

fun event_faculty :: "event \<Rightarrow> string" where
  "event_faculty (LockLab f _) = f"
| "event_faculty (LockTheory f _) = f"
| "event_faculty (ForceTheory f _) = f"
| "event_faculty (ForceLab f _) = f"

text \<open>
  The state of one scheduling run: the two stores, the generator and the log. Inside
  \<open>assign_subjects_for_faculty\<close> the faculty's grid \<open>ftbl\<close> and the list \<open>pending\<close> are
  local names; \<open>ftbl\<close> is the object stored in \<open>ftables\<close>, so the function's writes to it
  are writes to the store, made here when the function returns.
\<close>

record engine =
  e_ftables :: ftables
  e_dtables :: dtables
  e_rng :: rng
  e_log :: "event list"

record astate =
  a_ftbl :: table
  a_dts :: dtables
  a_rng :: rng
  a_pending :: "task list"
  a_log :: "event list"

text \<open>A write through the reference \<open>dtbl\<close> that \<open>ensure_div_table\<close> returned.\<close>

definition dtables_put :: "dtables \<Rightarrow> string \<Rightarrow> string \<Rightarrow> table \<Rightarrow> dtables" where
  "dtables_put dts sem div' tbl = AList.map_entry (sem, div') (\<lambda>e. e\<lparr>d_table := tbl\<rparr>) dts"

text \<open>\<open>for _ in range(n): ok = lock_lab(...); if not ok: pending.append(...)\<close>\<close>

fun lab_attempts ::
  "settings \<Rightarrow> string \<Rightarrow> shift \<Rightarrow> string \<Rightarrow> string \<Rightarrow> shift \<Rightarrow> string \<Rightarrow> string \<Rightarrow> nat
     \<Rightarrow> table \<times> table \<times> rng \<times> task list \<times> event list
     \<Rightarrow> table \<times> table \<times> rng \<times> task list \<times> event list" where
  "lab_attempts fds fname fshift sem div' dshift sub batch 0 st = st"
| "lab_attempts fds fname fshift sem div' dshift sub batch (Suc n) (ftbl, dtbl, r, pending, lg) =
     (case lock_lab fds ftbl dtbl fshift dshift fname sem div' sub batch True r of
        (ok, ftbl', dtbl', r') \<Rightarrow>
          lab_attempts fds fname fshift sem div' dshift sub batch n
            (ftbl', dtbl', r',
             (if \<not> ok then pending @ [LabTask sem div' dshift sub batch fname fshift]
              else pending),
             lg @ [LockLab fname ok]))"

text \<open>
  One Lab entry. \<open>entry["Batches"][0]\<close> raises IndexError when the batches are grouped and
  the list is empty.
\<close>

definition lab_entry ::
  "settings \<Rightarrow> string \<Rightarrow> shift \<Rightarrow> subject_entry \<Rightarrow> astate \<Rightarrow> py_error + astate" where
  "lab_entry fds fname fshift entry st =
     (let sem = Semester entry; div' = Division entry; sub = Subject entry;
          dshift = Div_Shift entry
      in case ensure_div_table fds (a_dts st) sem div' dshift of (dts, dtbl, _) \<Rightarrow>
         (case (if \<not> Batches_Grouped entry then Inr (Batches entry)
                else (case Batches entry of [] \<Rightarrow> Inl IndexError | b # _ \<Rightarrow> Inr [b])) of
            Inl err \<Rightarrow> Inl err
          | Inr batches \<Rightarrow>
              (case foldl (\<lambda>acc batch.
                       lab_attempts fds fname fshift sem div' dshift sub batch (Num_Labs entry) acc)
                     (a_ftbl st, dtbl, a_rng st, a_pending st, a_log st) batches of
                 (ftbl', dtbl', r', pending', lg') \<Rightarrow>
                   Inr \<lparr>a_ftbl = ftbl', a_dts = dtables_put dts sem div' dtbl', a_rng = r',
                        a_pending = pending', a_log = lg'\<rparr>)))"

fun lab_entries ::
  "settings \<Rightarrow> string \<Rightarrow> shift \<Rightarrow> subject_entry list \<Rightarrow> astate \<Rightarrow> py_error + astate" where
  "lab_entries fds fname fshift [] st = Inr st"
| "lab_entries fds fname fshift (entry # rest) st =
     (case lab_entry fds fname fshift entry st of
        Inl err \<Rightarrow> Inl err
      | Inr st' \<Rightarrow> lab_entries fds fname fshift rest st')"

text \<open>\<open>for _ in range(n): ok = lock_theory(...); if not ok: pending.append(...)\<close>\<close>

fun theory_attempts ::
  "settings \<Rightarrow> string \<Rightarrow> shift \<Rightarrow> string \<Rightarrow> string \<Rightarrow> shift \<Rightarrow> string \<Rightarrow> nat
     \<Rightarrow> table \<times> table \<times> rng \<times> task list \<times> event list
     \<Rightarrow> table \<times> table \<times> rng \<times> task list \<times> event list" where
  "theory_attempts fds fname fshift sem div' dshift sub 0 st = st"
| "theory_attempts fds fname fshift sem div' dshift sub (Suc n) (ftbl, dtbl, r, pending, lg) =
     (case lock_theory fds ftbl dtbl fshift dshift fname sem div' sub True r of
        (ok, ftbl', dtbl', r') \<Rightarrow>
          theory_attempts fds fname fshift sem div' dshift sub n
            (ftbl', dtbl', r',
             (if \<not> ok then pending @ [TheoryTask sem div' dshift sub fname fshift]
              else pending),
             lg @ [LockTheory fname ok]))"

definition theory_entry ::
  "settings \<Rightarrow> string \<Rightarrow> shift \<Rightarrow> astate \<Rightarrow> subject_entry \<Rightarrow> astate" where
  "theory_entry fds fname fshift st entry =
     (let sem = Semester entry; div' = Division entry; sub = Subject entry;
          dshift = Div_Shift entry
      in case ensure_div_table fds (a_dts st) sem div' dshift of (dts, dtbl, _) \<Rightarrow>
         (case theory_attempts fds fname fshift sem div' dshift sub (Theory_Classes entry)
                 (a_ftbl st, dtbl, a_rng st, a_pending st, a_log st) of
            (ftbl', dtbl', r', pending', lg') \<Rightarrow>
              \<lparr>a_ftbl = ftbl', a_dts = dtables_put dts sem div' dtbl', a_rng = r',
               a_pending = pending', a_log = lg'\<rparr>))"

text \<open>
  One step of the loop \<open>for task in pending\<close>. The force placers are called with the
  function's \<open>fname\<close> and the task's own \<open>FShift\<close>.
\<close>

fun force_task :: "settings \<Rightarrow> string \<Rightarrow> astate \<Rightarrow> task \<Rightarrow> astate" where
  "force_task fds fname st (TheoryTask sem div' dshift sub faculty fshift_task) =
     (case ensure_div_table fds (a_dts st) sem div' dshift of (dts, dtbl, _) \<Rightarrow>
        (case force_place_theory fds (a_ftbl st) dtbl fshift_task dshift fname sem div' sub of
           (ok, ftbl', dtbl') \<Rightarrow>
             st\<lparr>a_ftbl := ftbl', a_dts := dtables_put dts sem div' dtbl',
                a_log := a_log st @ [ForceTheory fname ok]\<rparr>))"
| "force_task fds fname st (LabTask sem div' dshift sub batch faculty fshift_task) =
     (case ensure_div_table fds (a_dts st) sem div' dshift of (dts, dtbl, _) \<Rightarrow>
        (case force_place_lab fds (a_ftbl st) dtbl fshift_task dshift fname sem div' sub batch of
           (ok, ftbl', dtbl') \<Rightarrow>
             st\<lparr>a_ftbl := ftbl', a_dts := dtables_put dts sem div' dtbl',
                a_log := a_log st @ [ForceLab fname ok]\<rparr>))"

definition assign_subjects_for_faculty :: "settings \<Rightarrow> faculty \<Rightarrow> engine \<Rightarrow> py_error + engine" where
  "assign_subjects_for_faculty fds f st =
     (let fname = Name f; fshift = Shift f; fsubjects = Subjects f in
      case (case map_of (e_ftables st) fname of
              Some t \<Rightarrow> (e_ftables st, t)
            | None \<Rightarrow> (AList.update fname (empty_table_for_shift fshift) (e_ftables st),
                       empty_table_for_shift fshift)) of
        (fts, ftbl) \<Rightarrow>
          (case lab_entries fds fname fshift (filter (\<lambda>s. Type s = LabT) fsubjects)
                  \<lparr>a_ftbl = ftbl, a_dts = e_dtables st, a_rng = e_rng st, a_pending = [],
                   a_log = e_log st\<rparr> of
             Inl err \<Rightarrow> Inl err
           | Inr st1 \<Rightarrow>
               (let st2 = foldl (theory_entry fds fname fshift) st1
                            (filter (\<lambda>s. Type s = TheoryT) fsubjects);
                    st3 = foldl (force_task fds fname) st2 (a_pending st2)
                in Inr \<lparr>e_ftables = AList.update fname (a_ftbl st3) fts,
                        e_dtables = a_dts st3, e_rng = a_rng st3, e_log = a_log st3\<rparr>)))"

text \<open>\<open>for f in faculties: assign_subjects_for_faculty(f, ftables, dtables)\<close>\<close>

fun assign_all :: "settings \<Rightarrow> faculty list \<Rightarrow> engine \<Rightarrow> py_error + engine" where
  "assign_all fds [] st = Inr st"
| "assign_all fds (f # fs) st =
     (case assign_subjects_for_faculty fds f st of
        Inl err \<Rightarrow> Inl err
      | Inr st' \<Rightarrow> assign_all fds fs st')"

section \<open>Free-day pre-marking\<close>

text \<open>
  \<open>div_shift_map\<close> keeps the \<open>Div_Shift\<close> of the first subject that names a \<open>(sem, div)\<close>.
  The selected days are values of \<^typ>\<open>day\<close>, so the test \<open>if day not in dtbl\<close> of the
  marking loop never holds and has no branch here; the loop then writes every key of the
  day's row.
\<close>

definition div_shift_map :: "faculty list \<Rightarrow> ((string \<times> string) \<times> shift) list" where
  "div_shift_map faculties =
     foldl (\<lambda>m s. if (Semester s, Division s) \<in> set (map fst m) then m
                   else AList.update (Semester s, Division s) (Div_Shift s) m)
       [] (concat (map Subjects faculties))"

definition mark_whole_days :: "table \<Rightarrow> string \<Rightarrow> string \<Rightarrow> day list \<Rightarrow> table" where
  "mark_whole_days dtbl sem div' days =
     foldl (\<lambda>tbl d.
        foldl (\<lambda>tbl slot. cell_set tbl d slot (holiday_text sem div'))
          tbl (map fst (row_of tbl d)))
       dtbl days"

definition apply_free_day_markings_from_inputs ::
  "settings \<Rightarrow> dtables \<Rightarrow> faculty list \<Rightarrow> dtables" where
  "apply_free_day_markings_from_inputs fds dts0 faculties =
     foldl (\<lambda>dts ((sem, div'), days).
        (let div_shift = (case map_of (div_shift_map faculties) (sem, div') of
                            None \<Rightarrow> S8_3 | Some sh \<Rightarrow> sh)
         in case ensure_div_table fds dts sem div' div_shift of (dts', dtbl, _) \<Rightarrow>
              dtables_put dts' sem div' (mark_whole_days dtbl sem div' days)))
       dts0 fds"

section \<open>Entry points\<close>

text \<open>
  \<open>random.seed(n)\<close> puts the generator into a state that depends on \<open>n\<close> only. The
  generator is the standard library's; the model takes the function from a seed to the
  state as the parameter \<open>seeded\<close>.

  \<open>main\<close> (the command line): the faculty plan and \<open>FREE_DAY_SETTINGS\<close> are what the
  interactive collection returned; both stores start empty.
\<close>

definition main_run :: "(nat \<Rightarrow> rng) \<Rightarrow> settings \<Rightarrow> faculty list \<Rightarrow> py_error + engine" where
  "main_run seeded fds faculties =
     assign_all fds faculties
       \<lparr>e_ftables = [], e_dtables = apply_free_day_markings_from_inputs fds [] faculties,
        e_rng = seeded 7, e_log = []\<rparr>"

text \<open>
  \<open>generate\<close> (the HTTP adapter): the stores, the generator and \<open>FREE_DAY_SETTINGS\<close> are
  module-level objects that outlive a request; \<open>globals\<close> is what a request finds. The
  request resets the stores, reseeds, clears the settings and fills them from the
  \<open>Holidays\<close> of the plan (\<open>settings_from_plan\<close> starts from the cleared
  dictionary), creates the grids, and then runs the same engine. The response carries the
  settings and the state of the run that the exporter reads.
\<close>

record globals =
  g_ftables :: ftables
  g_dtables :: dtables
  g_fds :: settings
  g_rng :: rng

datatype response = BadRequest | ServerError py_error | Generated settings engine

definition settings_from_plan :: "faculty list \<Rightarrow> settings" where
  "settings_from_plan faculties =
     foldl (\<lambda>fds subj.
        if Semester subj \<noteq> [] \<and> Division subj \<noteq> [] \<and> Holidays subj \<noteq> []
        then AList.update (Semester subj, normalize_token (Division subj)) (Holidays subj) fds
        else fds)
       [] (concat (map Subjects faculties))"

definition init_tables :: "settings \<Rightarrow> ftables \<times> dtables \<Rightarrow> faculty list \<Rightarrow> ftables \<times> dtables" where
  "init_tables fds stores faculties =
     foldl (\<lambda>(fts, dts) f.
        (if Name f \<in> set (map fst fts) then fts
         else AList.update (Name f) (empty_table_for_shift (Shift f)) fts,
         foldl (\<lambda>dts subj.
            fst (ensure_div_table fds dts (Semester subj) (Division subj) (Div_Shift subj)))
           dts (Subjects f)))
       stores faculties"

definition generate :: "(nat \<Rightarrow> rng) \<Rightarrow> globals \<Rightarrow> faculty list \<Rightarrow> response" where
  "generate seeded g faculties =
     (let g1 = g\<lparr>g_ftables := [], g_dtables := []\<rparr>;
          g2 = g1\<lparr>g_rng := seeded 7\<rparr>
      in if faculties = [] then BadRequest
      else
        (let g3 = g2\<lparr>g_fds := settings_from_plan faculties\<rparr> in
         case init_tables (g_fds g3) (g_ftables g3, g_dtables g3) faculties of (fts, dts) \<Rightarrow>
           (case assign_all (g_fds g3) faculties
                   \<lparr>e_ftables = fts,
                    e_dtables = apply_free_day_markings_from_inputs (g_fds g3) dts faculties,
                    e_rng = g_rng g3, e_log = []\<rparr> of
              Inl err \<Rightarrow> ServerError err
            | Inr st \<Rightarrow> Generated (g_fds g3) st)))"

section \<open>The run as a sequence of calls\<close>

text \<open>
  What the driver does to the two stores, call by call. A call is the creation of the
  faculty's grid (\<open>if fname not in ftables\<close>), a call of \<open>ensure_div_table\<close>, or a call of
  one of the four placers. A placer call is named by the task whose fields are its
  arguments (the lock placers are always called with \<open>avoid_dup=True\<close>) and by what it
  returned. The placers work on the grid \<open>ftables[fname]\<close> and on the grid that
  \<open>ensure_div_table\<close> returned for \<open>(sem, div)\<close>, which is the grid stored in \<open>dtables\<close>
  under that key; a write to either is a write to the store. The state of the generator
  at a lock call is not part of a step.
\<close>

type_synonym stores = "ftables \<times> dtables"

datatype call =
  EnsureFaculty string shift
| EnsureDivision string string shift
| Lock task bool
| Force task bool

inductive engine_step :: "settings \<Rightarrow> stores \<Rightarrow> call \<Rightarrow> stores \<Rightarrow> bool" for fds where
  ensure_faculty:
    "engine_step fds (fts, dts) (EnsureFaculty fname fshift)
       (if map_of fts fname = None then AList.update fname (empty_table_for_shift fshift) fts
        else fts, dts)"
| ensure_division:
    "engine_step fds (fts, dts) (EnsureDivision sem div' dshift)
       (fts, fst (ensure_div_table fds dts sem div' dshift))"
| lock_lab_call:
    "map_of fts fname = Some ftbl \<Longrightarrow> map_of dts (sem, div') = Some e \<Longrightarrow>
     lock_lab fds ftbl (d_table e) fshift dshift fname sem div' sub batch True r
       = (ok, ftbl', dtbl', r') \<Longrightarrow>
     engine_step fds (fts, dts) (Lock (LabTask sem div' dshift sub batch fname fshift) ok)
       (AList.update fname ftbl' fts, dtables_put dts sem div' dtbl')"
| lock_theory_call:
    "map_of fts fname = Some ftbl \<Longrightarrow> map_of dts (sem, div') = Some e \<Longrightarrow>
     lock_theory fds ftbl (d_table e) fshift dshift fname sem div' sub True r
       = (ok, ftbl', dtbl', r') \<Longrightarrow>
     engine_step fds (fts, dts) (Lock (TheoryTask sem div' dshift sub fname fshift) ok)
       (AList.update fname ftbl' fts, dtables_put dts sem div' dtbl')"
| force_lab_call:
    "map_of fts fname = Some ftbl \<Longrightarrow> map_of dts (sem, div') = Some e \<Longrightarrow>
     force_place_lab fds ftbl (d_table e) fshift dshift fname sem div' sub batch
       = (ok, ftbl', dtbl') \<Longrightarrow>
     engine_step fds (fts, dts) (Force (LabTask sem div' dshift sub batch fname fshift) ok)
       (AList.update fname ftbl' fts, dtables_put dts sem div' dtbl')"
| force_theory_call:
    "map_of fts fname = Some ftbl \<Longrightarrow> map_of dts (sem, div') = Some e \<Longrightarrow>
     force_place_theory fds ftbl (d_table e) fshift dshift fname sem div' sub
       = (ok, ftbl', dtbl') \<Longrightarrow>
     engine_step fds (fts, dts) (Force (TheoryTask sem div' dshift sub fname fshift) ok)
       (AList.update fname ftbl' fts, dtables_put dts sem div' dtbl')"

text \<open>A sequence of calls, from the stores it starts in to the stores it leaves.\<close>

inductive engine_steps :: "settings \<Rightarrow> stores \<Rightarrow> call list \<Rightarrow> stores \<Rightarrow> bool" for fds where
  no_call: "engine_steps fds s [] s"
| one_more: "engine_step fds s c s' \<Longrightarrow> engine_steps fds s' cs s'' \<Longrightarrow>
             engine_steps fds s (c # cs) s''"

text \<open>The placer calls, the faculty fields of a task, and the log record of a call.\<close>

fun is_placer :: "call \<Rightarrow> bool" where
  "is_placer (Lock _ _) = True"
| "is_placer (Force _ _) = True"
| "is_placer _ = False"

fun task_faculty :: "task \<Rightarrow> string" where
  "task_faculty (TheoryTask _ _ _ _ fname _) = fname"
| "task_faculty (LabTask _ _ _ _ _ fname _) = fname"

fun task_fshift :: "task \<Rightarrow> shift" where
  "task_fshift (TheoryTask _ _ _ _ _ fshift) = fshift"
| "task_fshift (LabTask _ _ _ _ _ _ fshift) = fshift"

fun call_events :: "call \<Rightarrow> event list" where
  "call_events (Lock (LabTask _ _ _ _ _ fname _) ok) = [LockLab fname ok]"
| "call_events (Lock (TheoryTask _ _ _ _ fname _) ok) = [LockTheory fname ok]"
| "call_events (Force (LabTask _ _ _ _ _ fname _) ok) = [ForceLab fname ok]"
| "call_events (Force (TheoryTask _ _ _ _ fname _) ok) = [ForceTheory fname ok]"
| "call_events _ = []"

section \<open>Specification predicates\<close>

text \<open>
  What a scan hands to the writer: the faculty cell(s) and the division cell(s) are free
  and the slots are canonically equivalent.
\<close>

definition theory_place_ok :: "table \<Rightarrow> table \<Rightarrow> shift \<Rightarrow> shift \<Rightarrow> theory_place \<Rightarrow> bool" where
  "theory_place_ok ftbl dtbl fshift dshift p =
     (case p of (fday, fs, dday, ds) \<Rightarrow>
        free_slot ftbl fday fs \<and> free_slot dtbl dday ds \<and>
        slots_equivalent fshift fs dshift ds)"

definition lab_place_ok :: "table \<Rightarrow> table \<Rightarrow> shift \<Rightarrow> shift \<Rightarrow> lab_place \<Rightarrow> bool" where
  "lab_place_ok ftbl dtbl fshift dshift p =
     (case p of (fday, (fs1, fs2), dday, (ds1, ds2)) \<Rightarrow>
        free_pair ftbl fday fs1 fs2 \<and> free_pair dtbl dday ds1 ds2 \<and>
        pair_slots_equivalent fshift fs1 fs2 dshift ds1 ds2)"

text \<open>The labels that are keys of a day's row.\<close>

definition slot_keys :: "table \<Rightarrow> day \<Rightarrow> string set" where
  "slot_keys t d = fst ` set (row_of t d)"

text \<open>
  The slot-label format in the specification's words. An endpoint \<open>H(:M)?\<close> is one or two
  decimal digits, optionally followed by a colon and one or two decimal digits; its hour
  and minute are the decimal values (the minute 0 when absent). The text that is parsed is
  the label's first whitespace-delimited token.
\<close>

definition hm_endpoint :: "string \<Rightarrow> nat \<Rightarrow> nat \<Rightarrow> bool" where
  "hm_endpoint tok h m =
     ((digits12 tok \<and> h = int_of_digits tok \<and> m = 0) \<or>
      (\<exists>H M. tok = H @ '':'' @ M \<and> digits12 H \<and> digits12 M \<and>
             h = int_of_digits H \<and> m = int_of_digits M))"

definition canonical_minutes :: "nat \<Rightarrow> nat \<Rightarrow> nat" where
  "canonical_minutes h m = (if h < 8 then h + 12 else h) * 60 + m"

definition first_token :: "string \<Rightarrow> string option" where
  "first_token l =
     (let rest = dropWhile is_space l
      in if rest = [] then None else Some (takeWhile (\<lambda>c. \<not> is_space c) rest))"

definition two_endpoints :: "string \<Rightarrow> bool" where
  "two_endpoints tok =
     (\<exists>a b h1 m1 h2 m2. tok = a @ ''-'' @ b \<and> CHR ''-'' \<notin> set a \<and> CHR ''-'' \<notin> set b \<and>
        hm_endpoint a h1 m1 \<and> hm_endpoint b h2 m2)"

definition text_before_first_space :: "string \<Rightarrow> string" where
  "text_before_first_space l = takeWhile (\<lambda>c. c \<noteq> CHR '' '') l"

text \<open>
  The shape of the log. The claim under test says that all lock records precede all force
  records.
\<close>

definition locks_before_forces :: "event list \<Rightarrow> bool" where
  "locks_before_forces lg = list_all is_force (dropWhile is_lock lg)"

text \<open>
  The obligation instances of a faculty, in the order in which the driver makes the lock
  calls for them: the Lab entries first, each with its batches (the first batch only when
  the batches are grouped) and \<open>Num_Labs\<close> calls for each batch, then the Theory entries
  with \<open>Theory_Classes\<close> calls each. The task of an instance is what the driver appends to
  \<open>pending\<close> when the call fails.
\<close>

definition lab_tasks :: "string \<Rightarrow> shift \<Rightarrow> subject_entry \<Rightarrow> task list" where
  "lab_tasks fname fshift entry =
     concat (map (\<lambda>batch. replicate (Num_Labs entry)
                    (LabTask (Semester entry) (Division entry) (Div_Shift entry) (Subject entry)
                       batch fname fshift))
               (if Batches_Grouped entry then take 1 (Batches entry) else Batches entry))"

definition theory_tasks :: "string \<Rightarrow> shift \<Rightarrow> subject_entry \<Rightarrow> task list" where
  "theory_tasks fname fshift entry =
     replicate (Theory_Classes entry)
       (TheoryTask (Semester entry) (Division entry) (Div_Shift entry) (Subject entry)
          fname fshift)"

definition lock_tasks :: "faculty \<Rightarrow> task list" where
  "lock_tasks f =
     concat (map (lab_tasks (Name f) (Shift f)) (filter (\<lambda>s. Type s = LabT) (Subjects f))) @
     concat (map (theory_tasks (Name f) (Shift f)) (filter (\<lambda>s. Type s = TheoryT) (Subjects f)))"

text \<open>
  The calls of one faculty. With every lock call paired with what it returned, the placer
  calls are the lock calls for the faculty's obligation instances, in their order, followed
  by one force call for each lock call that returned False, in the same order and for the
  same task.
\<close>

definition failed :: "(task \<times> bool) list \<Rightarrow> task list" where
  "failed tos = map fst (filter (\<lambda>(t, ok). \<not> ok) tos)"

definition faculty_calls :: "faculty \<Rightarrow> call list \<Rightarrow> bool" where
  "faculty_calls f cs =
     (\<exists>tos fos. map fst tos = lock_tasks f \<and> map fst fos = failed tos \<and>
        filter is_placer cs = map (\<lambda>(t, ok). Lock t ok) tos @ map (\<lambda>(t, ok). Force t ok) fos)"

text \<open>
  What a loop of lock calls, and a loop of force calls, does to the stores, to the
  pending list and to the log.
\<close>

definition lock_phase ::
  "settings \<Rightarrow> task list \<Rightarrow> stores \<times> task list \<times> event list
     \<Rightarrow> stores \<times> task list \<times> event list \<Rightarrow> bool" where
  "lock_phase fds tasks a b =
     (\<exists>cs tos. engine_steps fds (fst a) cs (fst b) \<and> map fst tos = tasks \<and>
        filter is_placer cs = map (\<lambda>(t, ok). Lock t ok) tos \<and>
        fst (snd b) = fst (snd a) @ failed tos \<and>
        snd (snd b) = snd (snd a) @ concat (map call_events cs))"

definition force_phase ::
  "settings \<Rightarrow> task list \<Rightarrow> stores \<times> event list \<Rightarrow> stores \<times> event list \<Rightarrow> bool" where
  "force_phase fds tasks a b =
     (\<exists>cs fos. engine_steps fds (fst a) cs (fst b) \<and> map fst fos = tasks \<and>
        filter is_placer cs = map (\<lambda>(t, ok). Force t ok) fos \<and>
        snd b = snd a @ concat (map call_events cs))"

text \<open>
  Cell monotonicity between two states of a grid: every cell that is non-empty in the
  first is the same in the second. A grid is clean when none of its cells is a non-empty
  string of whitespace only.
\<close>

definition tbl_preserved :: "table \<Rightarrow> table \<Rightarrow> bool" where
  "tbl_preserved t t' = (\<forall>d slot. cell_get t d slot \<noteq> [] \<longrightarrow> cell_get t' d slot = cell_get t d slot)"

definition tbl_clean :: "table \<Rightarrow> bool" where
  "tbl_clean t = (\<forall>d slot. cell_get t d slot \<noteq> [] \<longrightarrow> strip (cell_get t d slot) \<noteq> [])"

definition tbl_step :: "table \<Rightarrow> table \<Rightarrow> bool" where
  "tbl_step t t' = (tbl_clean t \<longrightarrow> tbl_preserved t t' \<and> tbl_clean t')"

text \<open>The division grid as \<open>ensure_div_table\<close> creates it.\<close>

definition fresh_div_table :: "settings \<Rightarrow> string \<times> string \<Rightarrow> shift \<Rightarrow> table" where
  "fresh_div_table fds k sh =
     mark_holidays (empty_table_for_shift sh) sh (fst k) (snd k) (fds_get fds (fst k) (snd k))"

text \<open>
  The same between two states of the stores: every grid of the first is a grid of the
  second, a division grid with the same shift, and every cell that is non-empty in the
  first is the same in the second. The stores are clean when every grid in them is.
\<close>

definition grids_clean :: "stores \<Rightarrow> bool" where
  "grids_clean s =
     ((\<forall>k t. map_of (fst s) k = Some t \<longrightarrow> tbl_clean t) \<and>
      (\<forall>k e. map_of (snd s) k = Some e \<longrightarrow> tbl_clean (d_table e)))"

definition cells_kept :: "stores \<Rightarrow> stores \<Rightarrow> bool" where
  "cells_kept s s' =
     ((\<forall>k t. map_of (fst s) k = Some t \<longrightarrow>
         (\<exists>t'. map_of (fst s') k = Some t' \<and> tbl_preserved t t')) \<and>
      (\<forall>k e. map_of (snd s) k = Some e \<longrightarrow>
         (\<exists>e'. map_of (snd s') k = Some e' \<and> d_shift e' = d_shift e \<and>
               tbl_preserved (d_table e) (d_table e'))))"

text \<open>
  Shift-window admissibility. A slot label is late when its canonical start is at least
  600 minutes. Between two states of a grid, and of the division store, every cell that
  differs is at a late label; a grid that appears is compared with the grid as
  \<open>ensure_div_table\<close> creates it. A sequence of calls is late when each of its placer calls
  is made with the faculty shift 10-5.
\<close>

definition late_slot :: "string \<Rightarrow> bool" where
  "late_slot slot =
     (case slot_label_to_canonical slot of Inl _ \<Rightarrow> False | Inr (start, end') \<Rightarrow> 600 \<le> start)"

definition tbl_late :: "table \<Rightarrow> table \<Rightarrow> bool" where
  "tbl_late t t' = (\<forall>d slot. cell_get t' d slot \<noteq> cell_get t d slot \<longrightarrow> late_slot slot)"

definition dts_late :: "settings \<Rightarrow> dtables \<Rightarrow> dtables \<Rightarrow> bool" where
  "dts_late fds dts dts' =
     (\<forall>k. case map_of dts k of
            Some e \<Rightarrow> (\<exists>e'. map_of dts' k = Some e' \<and> d_shift e' = d_shift e \<and>
                           tbl_late (d_table e) (d_table e'))
          | None \<Rightarrow> (case map_of dts' k of
                       None \<Rightarrow> True
                     | Some e' \<Rightarrow> tbl_late (fresh_div_table fds k (d_shift e')) (d_table e')))"

definition late_calls :: "call list \<Rightarrow> bool" where
  "late_calls cs =
     list_all (\<lambda>c. case c of Lock t _ \<Rightarrow> task_fshift t = S10_5
                  | Force t _ \<Rightarrow> task_fshift t = S10_5 | _ \<Rightarrow> True) cs"

section \<open>Example inputs\<close>

text \<open>
  Concrete grids and plans at which the theorems below are exercised: a division grid of
  the 8-3 shift with every day marked as a holiday of Sem 3 Div A, a generator that
  returns the days in their order, small plans, and a faculty of the 10-5 shift who
  teaches a division of the 8-3 shift.
\<close>

definition blocked_table :: table where
  "blocked_table = mark_holidays (empty_table_for_shift S8_3) S8_3 ''3'' ''A'' DAYS"

definition in_order :: rng where
  "in_order = (\<lambda>n. DAYS)"

definition theory_of :: "string \<Rightarrow> string \<Rightarrow> shift \<Rightarrow> string \<Rightarrow> nat \<Rightarrow> subject_entry" where
  "theory_of sem div' dshift sub n =
     \<lparr>Type = TheoryT, Semester = sem, Division = div', Div_Shift = dshift, Subject = sub,
      Theory_Classes = n, Num_Labs = 0, Batches = [], Batches_Grouped = False, Holidays = []\<rparr>"

definition faculty_of :: "string \<Rightarrow> shift \<Rightarrow> subject_entry list \<Rightarrow> faculty" where
  "faculty_of fname fshift subjects = \<lparr>Name = fname, Shift = fshift, Subjects = subjects\<rparr>"

definition monday_free :: settings where
  "monday_free = [((''3'', ''A''), [Mon])]"

definition plan_one :: "faculty list" where
  "plan_one = [faculty_of ''F'' S8_3 [theory_of ''3'' ''A'' S8_3 ''X'' 1]]"

definition all_week_free :: settings where
  "all_week_free = [((''3'', ''A''), DAYS)]"

definition plan_two :: "faculty list" where
  "plan_two = [faculty_of ''F1'' S8_3 [theory_of ''3'' ''A'' S8_3 ''X'' 1],
               faculty_of ''F2'' S8_3 [theory_of ''3'' ''A'' S8_3 ''Y'' 1]]"

definition plan_holiday :: "faculty list" where
  "plan_holiday =
     [faculty_of ''F'' S8_3 [(theory_of ''3'' ''A'' S8_3 ''X'' 1)\<lparr>Holidays := [Mon]\<rparr>]]"

definition plan_mixed :: "faculty list" where
  "plan_mixed =
     [faculty_of ''F'' S8_3 [theory_of ''3'' ''A'' S10_5 ''X'' 1,
                            theory_of ''3'' ''A'' S8_3 ''Y'' 1]]"

definition late_faculty :: faculty where
  "late_faculty = faculty_of ''F'' S10_5 [theory_of ''3'' ''A'' S8_3 ''X'' 1]"

section \<open>Properties\<close>

subsection \<open>Strings\<close>

lemma strip_Nil_iff: "strip s = [] \<longleftrightarrow> list_all is_space s"
proof -
  have "dropWhile is_space s = [] \<or> \<not> list_all is_space (rev (dropWhile is_space s))"
    using hd_dropWhile [of is_space s]
    by (cases "dropWhile is_space s") (auto simp: list_all_iff)
  moreover have "dropWhile is_space s = [] \<longleftrightarrow> list_all is_space s"
    by (simp add: dropWhile_eq_Nil_conv list_all_iff)
  ultimately show ?thesis
    by (auto simp: strip_def dropWhile_eq_Nil_conv list_all_iff dest: set_dropWhileD)
qed

lemma is_prefix_set: "is_prefix n s \<Longrightarrow> set n \<subseteq> set s"
  by (induction n s rule: is_prefix.induct) auto

lemma contains_set: "contains n s \<Longrightarrow> set n \<subseteq> set s"
proof (induction n s rule: contains.induct)
  case (1 needle)
  then show ?case by simp
next
  case (2 needle c cs)
  then show ?case using is_prefix_set [of needle "c # cs"] by auto
qed

lemma not_blank_mem: "c \<in> set s \<Longrightarrow> \<not> is_space c \<Longrightarrow> strip s \<noteq> []"
  by (auto simp: strip_Nil_iff list_all_iff)

lemma inert_not_blank: "is_inert s \<Longrightarrow> strip s \<noteq> []"
proof -
  assume "is_inert s"
  then have "CHR ''B'' \<in> set s \<or> CHR ''L'' \<in> set s"
    unfolding is_inert_def using contains_set [of "''Break''" s] contains_set [of "''Lunch''" s]
    by auto
  then show ?thesis
    using not_blank_mem [of "CHR ''B''" s] not_blank_mem [of "CHR ''L''" s]
    by (auto simp: is_space_def)
qed

lemma placed_text_not_blank:
  "strip ''MERGE'' \<noteq> []"
  "strip (holiday_text sem div') \<noteq> []"
  "strip (theory_ftext sub sem div') \<noteq> []"
  "strip (theory_dtext sub fname) \<noteq> []"
  "strip (lab_ftext sub sem div' b) \<noteq> []"
  "strip (lab_dtext sub fname b) \<noteq> []"
  by (rule not_blank_mem [where c = "CHR ''M''"], simp, simp add: is_space_def,
      (rule not_blank_mem [where c = "CHR ''(''"],
       simp add: holiday_text_def theory_ftext_def theory_dtext_def lab_ftext_def lab_dtext_def,
       simp add: is_space_def)+)

lemma free_slot_strip: "free_slot tbl d slot \<longleftrightarrow> strip (cell_get tbl d slot) = []"
  by (simp add: free_slot_def Let_def)

subsection \<open>The freeness predicate\<close>

text \<open>
  What \<open>free_slot\<close> computes: it returns True if and only if the cell read for the label
  (the stored string, or the empty string when the label is not a key of the day's row) is
  empty after stripping whitespace; a cell that holds \<open>MERGE\<close>, the holiday sentinel, a
  placement text or an inert break/lunch label is not free.
\<close>

lemma free_slot_iff_blank:
  "(free_slot tbl d slot \<longleftrightarrow> strip (cell_get tbl d slot) = []) \<and>
   (cell_get tbl d slot \<in>
      {''MERGE'', holiday_text sem div', theory_ftext sub sem div', theory_dtext sub fname,
       lab_ftext sub sem div' b, lab_dtext sub fname b}
      \<longrightarrow> \<not> free_slot tbl d slot) \<and>
   (is_inert (cell_get tbl d slot) \<longrightarrow> \<not> free_slot tbl d slot)"
  using placed_text_not_blank inert_not_blank
  by (auto simp: free_slot_strip)


subsection \<open>What the scans return\<close>

lemma first_some_SomeD: "first_some body xs = Some y \<Longrightarrow> \<exists>x \<in> set xs. body x = Some y"
  by (induction xs) (auto split: option.splits)

lemma first_some_None_iff: "first_some body xs = None \<longleftrightarrow> (\<forall>x \<in> set xs. body x = None)"
  by (induction xs) (auto split: option.splits)

lemma theory_scan_day_ok:
  "theory_scan_day ftbl dtbl fshift dshift d = Some p \<Longrightarrow>
     theory_place_ok ftbl dtbl fshift dshift p \<and> fst p = d \<and> fst (snd (snd p)) = d"
  unfolding theory_scan_day_def theory_place_ok_def
  by (auto dest!: first_some_SomeD split: if_splits)

lemma lab_scan_day_ok:
  "lab_scan_day ftbl dtbl fshift dshift d = Some p \<Longrightarrow>
     lab_place_ok ftbl dtbl fshift dshift p \<and> fst p = d \<and> fst (snd (snd p)) = d"
  unfolding lab_scan_day_def lab_place_ok_def
  by (auto dest!: first_some_SomeD split: if_splits)

lemma lab_flex_div_ok:
  "lab_flex_div dtbl fshift dshift sem div' avoid_dup fday fp ddays = Some p \<Longrightarrow>
     free_pair ftbl fday (fst fp) (snd fp) \<Longrightarrow> lab_place_ok ftbl dtbl fshift dshift p"
  unfolding lab_flex_div_def lab_place_ok_def
  by (auto dest!: first_some_SomeD split: if_splits)

lemma lab_flex_scan_ok:
  "lab_flex_scan ftbl dtbl fshift dshift sem div' avoid_dup cands r = (Some p, r') \<Longrightarrow>
     lab_place_ok ftbl dtbl fshift dshift p"
proof (induction cands arbitrary: r)
  case Nil
  then show ?case by simp
next
  case (Cons c cands)
  obtain fday fp where c: "c = (fday, fp)" by (cases c)
  show ?case
  proof (cases "free_pair ftbl fday (fst fp) (snd fp)")
    case False
    with Cons c show ?thesis by simp
  next
    case True
    obtain ddays r1 where s: "sample r = (ddays, r1)" by (cases "sample r")
    show ?thesis
    proof (cases "lab_flex_div dtbl fshift dshift sem div' avoid_dup fday fp ddays")
      case None
      with Cons c True s show ?thesis by simp
    next
      case (Some q)
      with Cons.prems c True s have "q = p" by simp
      with Some True show ?thesis by (auto dest: lab_flex_div_ok)
    qed
  qed
qed

lemma force_theory_tight_ok:
  "force_theory_tight fds ftbl dtbl fshift dshift sem div' = Some p \<Longrightarrow>
     theory_place_ok ftbl dtbl fshift dshift p \<and>
     \<not> is_division_holiday fds sem div' (fst (snd (snd p)))"
  unfolding force_theory_tight_def theory_place_ok_def
  by (auto dest!: first_some_SomeD split: if_splits)

lemma force_theory_relaxed_ok:
  "force_theory_relaxed ftbl dtbl fshift dshift = Some p \<Longrightarrow>
     theory_place_ok ftbl dtbl fshift dshift p"
  unfolding force_theory_relaxed_def theory_place_ok_def
  by (auto dest!: first_some_SomeD split: if_splits)

lemma force_lab_tight_ok:
  "force_lab_tight fds ftbl dtbl fshift dshift sem div' = Some p \<Longrightarrow>
     lab_place_ok ftbl dtbl fshift dshift p \<and>
     \<not> is_division_holiday fds sem div' (fst (snd (snd p)))"
  unfolding force_lab_tight_def lab_place_ok_def
  by (auto dest!: first_some_SomeD split: if_splits)

lemma force_lab_relaxed_ok:
  "force_lab_relaxed ftbl dtbl fshift dshift = Some p \<Longrightarrow>
     lab_place_ok ftbl dtbl fshift dshift p"
  unfolding force_lab_relaxed_def lab_place_ok_def
  by (auto dest!: first_some_SomeD split: if_splits)

text \<open>Each placer either fails and returns the grids it was given, or writes one
  candidate that its scan accepted.\<close>

lemma lock_theory_cases:
  "lock_theory fds ftbl dtbl fshift dshift fname sem div' sub avoid_dup r = (ok, ftbl', dtbl', r')
   \<Longrightarrow> (\<not> ok \<and> ftbl' = ftbl \<and> dtbl' = dtbl) \<or>
       (ok \<and> (\<exists>p. theory_place_ok ftbl dtbl fshift dshift p \<and>
                   write_theory ftbl dtbl fname sem div' sub p = (ftbl', dtbl')))"
  unfolding lock_theory_def
  by (auto split: prod.splits option.splits if_splits
        dest!: first_some_SomeD theory_scan_day_ok; blast)

lemma lock_lab_cases:
  "lock_lab fds ftbl dtbl fshift dshift fname sem div' sub b avoid_dup r = (ok, ftbl', dtbl', r')
   \<Longrightarrow> (\<not> ok \<and> ftbl' = ftbl \<and> dtbl' = dtbl) \<or>
       (ok \<and> (\<exists>p. lab_place_ok ftbl dtbl fshift dshift p \<and>
                   write_lab ftbl dtbl fname sem div' sub b p = (ftbl', dtbl')))"
  unfolding lock_lab_def
  by (auto split: prod.splits option.splits if_splits
        dest!: first_some_SomeD lab_scan_day_ok lab_flex_scan_ok; blast)

lemma force_place_theory_cases:
  "force_place_theory fds ftbl dtbl fshift dshift fname sem div' sub = (ok, ftbl', dtbl')
   \<Longrightarrow> (\<not> ok \<and> ftbl' = ftbl \<and> dtbl' = dtbl) \<or>
       (ok \<and> (\<exists>p. theory_place_ok ftbl dtbl fshift dshift p \<and>
                   write_theory ftbl dtbl fname sem div' sub p = (ftbl', dtbl')))"
  unfolding force_place_theory_def
  by (auto split: prod.splits option.splits
        dest!: force_theory_tight_ok force_theory_relaxed_ok; blast)

lemma force_place_lab_cases:
  "force_place_lab fds ftbl dtbl fshift dshift fname sem div' sub b = (ok, ftbl', dtbl')
   \<Longrightarrow> (\<not> ok \<and> ftbl' = ftbl \<and> dtbl' = dtbl) \<or>
       (ok \<and> (\<exists>p. lab_place_ok ftbl dtbl fshift dshift p \<and>
                   write_lab ftbl dtbl fname sem div' sub b p = (ftbl', dtbl')))"
  unfolding force_place_lab_def
  by (auto split: prod.splits option.splits
        dest!: force_lab_tight_ok force_lab_relaxed_ok; blast)

subsection \<open>Cells of an updated grid\<close>

lemma row_of_set_row [simp]: "row_of (set_row t d r) d' = (if d' = d then r else row_of t d')"
  by (cases t; cases d; cases d') simp_all

lemma cell_get_cell_set:
  "cell_get (cell_set t d slot v) d' slot' =
     (if d' = d \<and> slot' = slot then v else cell_get t d' slot')"
  by (simp add: cell_get_def cell_set_def update_conv')

lemma canonical_S10_5:
  "map slot_label_to_canonical (SHIFT_SLOTS S10_5) =
     [Inr (600, 660), Inr (660, 720), Inr (720, 765), Inr (765, 825),
      Inr (825, 885), Inr (885, 900), Inr (900, 960), Inr (960, 1020)]"
  by code_simp

lemma CANONICAL_MAP_SomeD:
  "CANONICAL_MAP sh l = Some c \<Longrightarrow> slot_label_to_canonical l = Inr c"
  by (auto simp: CANONICAL_MAP_def split: if_splits sum.splits)

lemma late_shift_start: "CANONICAL_MAP S10_5 l = Some c \<Longrightarrow> 600 \<le> fst c"
proof -
  assume a: "CANONICAL_MAP S10_5 l = Some c"
  then have "l \<in> set (SHIFT_SLOTS S10_5)"
    by (auto simp: CANONICAL_MAP_def split: if_splits)
  then have "Inr c \<in> set (map slot_label_to_canonical (SHIFT_SLOTS S10_5))"
    using CANONICAL_MAP_SomeD [OF a] by (metis image_eqI set_map)
  then show ?thesis
    unfolding canonical_S10_5 by auto
qed

lemma slots_equivalentD:
  "slots_equivalent fshift fs dshift ds \<Longrightarrow>
     \<exists>c. CANONICAL_MAP fshift fs = Some c \<and> CANONICAL_MAP dshift ds = Some c"
  by (auto simp: slots_equivalent_def prod_eq_iff split: option.splits)

lemma equivalent_to_late_start:
  "slots_equivalent S10_5 fs dshift ds \<Longrightarrow>
     \<exists>s e. slot_label_to_canonical ds = Inr (s, e) \<and> 600 \<le> s"
  by (metis slots_equivalentD CANONICAL_MAP_SomeD late_shift_start prod.collapse)

subsection \<open>Atomicity of a failed placement\<close>

text \<open>
  C10. Whenever \<open>lock_theory\<close>, \<open>lock_lab\<close>, \<open>force_place_theory\<close> or \<open>force_place_lab\<close>
  returns False, the faculty grid and the division grid are exactly the grids the call was
  given.
\<close>

theorem placement_atomic_on_failure:
  "(\<not> fst (lock_theory fds ftbl dtbl fshift dshift fname sem div' sub avoid_dup r) \<longrightarrow>
      fst (snd (lock_theory fds ftbl dtbl fshift dshift fname sem div' sub avoid_dup r)) = ftbl \<and>
      fst (snd (snd (lock_theory fds ftbl dtbl fshift dshift fname sem div' sub avoid_dup r))) = dtbl) \<and>
   (\<not> fst (lock_lab fds ftbl dtbl fshift dshift fname sem div' sub b avoid_dup r) \<longrightarrow>
      fst (snd (lock_lab fds ftbl dtbl fshift dshift fname sem div' sub b avoid_dup r)) = ftbl \<and>
      fst (snd (snd (lock_lab fds ftbl dtbl fshift dshift fname sem div' sub b avoid_dup r))) = dtbl) \<and>
   (\<not> fst (force_place_theory fds ftbl dtbl fshift dshift fname sem div' sub) \<longrightarrow>
      fst (snd (force_place_theory fds ftbl dtbl fshift dshift fname sem div' sub)) = ftbl \<and>
      snd (snd (force_place_theory fds ftbl dtbl fshift dshift fname sem div' sub)) = dtbl) \<and>
   (\<not> fst (force_place_lab fds ftbl dtbl fshift dshift fname sem div' sub b) \<longrightarrow>
      fst (snd (force_place_lab fds ftbl dtbl fshift dshift fname sem div' sub b)) = ftbl \<and>
      snd (snd (force_place_lab fds ftbl dtbl fshift dshift fname sem div' sub b)) = dtbl)"
proof (intro conjI impI)
  assume "\<not> fst (lock_theory fds ftbl dtbl fshift dshift fname sem div' sub avoid_dup r)"
  then show "fst (snd (lock_theory fds ftbl dtbl fshift dshift fname sem div' sub avoid_dup r)) = ftbl"
    and "fst (snd (snd (lock_theory fds ftbl dtbl fshift dshift fname sem div' sub avoid_dup r))) = dtbl"
    using lock_theory_cases [of fds ftbl dtbl fshift dshift fname sem div' sub avoid_dup r]
    by (cases "lock_theory fds ftbl dtbl fshift dshift fname sem div' sub avoid_dup r"; simp)+
next
  assume "\<not> fst (lock_lab fds ftbl dtbl fshift dshift fname sem div' sub b avoid_dup r)"
  then show "fst (snd (lock_lab fds ftbl dtbl fshift dshift fname sem div' sub b avoid_dup r)) = ftbl"
    and "fst (snd (snd (lock_lab fds ftbl dtbl fshift dshift fname sem div' sub b avoid_dup r))) = dtbl"
    using lock_lab_cases [of fds ftbl dtbl fshift dshift fname sem div' sub b avoid_dup r]
    by (cases "lock_lab fds ftbl dtbl fshift dshift fname sem div' sub b avoid_dup r"; simp)+
next
  assume "\<not> fst (force_place_theory fds ftbl dtbl fshift dshift fname sem div' sub)"
  then show "fst (snd (force_place_theory fds ftbl dtbl fshift dshift fname sem div' sub)) = ftbl"
    and "snd (snd (force_place_theory fds ftbl dtbl fshift dshift fname sem div' sub)) = dtbl"
    using force_place_theory_cases [of fds ftbl dtbl fshift dshift fname sem div' sub]
    by (cases "force_place_theory fds ftbl dtbl fshift dshift fname sem div' sub"; simp)+
next
  assume "\<not> fst (force_place_lab fds ftbl dtbl fshift dshift fname sem div' sub b)"
  then show "fst (snd (force_place_lab fds ftbl dtbl fshift dshift fname sem div' sub b)) = ftbl"
    and "snd (snd (force_place_lab fds ftbl dtbl fshift dshift fname sem div' sub b)) = dtbl"
    using force_place_lab_cases [of fds ftbl dtbl fshift dshift fname sem div' sub b]
    by (cases "force_place_lab fds ftbl dtbl fshift dshift fname sem div' sub b"; simp)+
qed

subsection \<open>Cells of created and marked grids\<close>

lemma cell_get_foldl_cell_set:
  "cell_get (foldl (\<lambda>t slot. cell_set t d slot (v slot)) t ks) d' s =
     (if d' = d \<and> s \<in> set ks then v s else cell_get t d' s)"
  by (induction ks arbitrary: t rule: rev_induct) (auto simp: cell_get_cell_set)

lemma cell_get_foldl_teaching:
  "cell_get (foldl (\<lambda>t slot. if is_inert slot then t else cell_set t d slot v) t ks) d' s =
     (if d' = d \<and> s \<in> set ks \<and> \<not> is_inert s then v else cell_get t d' s)"
  by (induction ks arbitrary: t rule: rev_induct) (auto simp: cell_get_cell_set)

lemma cell_get_empty_Table [simp]: "cell_get (Table [] [] [] [] [] []) d s = []"
  by (cases d) (simp_all add: cell_get_def)

lemma cell_get_empty_table_for_shift:
  "cell_get (empty_table_for_shift sh) d s =
     (if s \<in> set (SHIFT_SLOTS sh) \<and> is_inert s then s else [])"
proof -
  have "cell_get (foldl (\<lambda>tbl d. foldl (\<lambda>tbl s. cell_set tbl d s (if is_inert s then s else []))
              tbl (SHIFT_SLOTS sh)) t ds) d s =
        (if d \<in> set ds \<and> s \<in> set (SHIFT_SLOTS sh) then (if is_inert s then s else [])
         else cell_get t d s)" for t ds
    by (induction ds arbitrary: t rule: rev_induct) (auto simp: cell_get_foldl_cell_set)
  moreover have "d \<in> set DAYS" by (cases d) (simp_all add: DAYS_def)
  ultimately show ?thesis by (simp add: empty_table_for_shift_def)
qed

lemma cell_get_mark_holidays:
  "cell_get (mark_holidays t sh sem div' hs) d s =
     (if d \<in> set hs \<and> s \<in> set (SHIFT_SLOTS sh) \<and> \<not> is_inert s then holiday_text sem div'
      else cell_get t d s)"
  unfolding mark_holidays_def
  by (induction hs arbitrary: t rule: rev_induct) (auto simp: cell_get_foldl_teaching)

text \<open>The keys of a row.\<close>

lemma keys_cell_set:
  "slot_keys (cell_set t d slot v) d' =
     (if d' = d then insert slot (slot_keys t d) else slot_keys t d')"
  by (simp add: slot_keys_def cell_set_def dom_update)

lemma keys_foldl_cell_set:
  "slot_keys (foldl (\<lambda>t slot. cell_set t d slot v) t ks) d' =
     (if d' = d then set ks \<union> slot_keys t d else slot_keys t d')"
  by (induction ks arbitrary: t rule: rev_induct) (auto simp: keys_cell_set)

lemma cell_get_no_key: "s \<notin> slot_keys t d \<Longrightarrow> cell_get t d s = []"
  by (simp add: slot_keys_def cell_get_def map_of_eq_None_iff [THEN iffD2])

lemma set_map_fst_keys: "set (map fst (row_of t d)) = slot_keys t d"
  by (simp add: slot_keys_def)

lemma mark_day_keys:
  "slot_keys (foldl (\<lambda>tbl slot. cell_set tbl d slot v) t (map fst (row_of t d))) d' =
     slot_keys t d'"
  by (auto simp: keys_foldl_cell_set set_map_fst_keys simp del: set_map)

lemma mark_day_cell:
  "cell_get (foldl (\<lambda>tbl slot. cell_set tbl d slot v) t (map fst (row_of t d))) d' s =
     (if d' = d \<and> s \<in> slot_keys t d then v else cell_get t d' s)"
  by (simp add: cell_get_foldl_cell_set [where v = "\<lambda>_. v"] set_map_fst_keys del: set_map)

lemma mark_whole_days_keys:
  "slot_keys (mark_whole_days t sem div' days) d = slot_keys t d"
  unfolding mark_whole_days_def
  by (induction days arbitrary: t rule: rev_induct) (simp_all add: mark_day_keys del: set_map)

lemma mark_whole_days_cell:
  "cell_get (mark_whole_days t sem div' days) d s =
     (if d \<in> set days \<and> s \<in> slot_keys t d then holiday_text sem div'
      else cell_get t d s)"
proof (induction days arbitrary: t rule: rev_induct)
  case Nil
  then show ?case by (simp add: mark_whole_days_def)
next
  case (snoc x xs)
  have "mark_whole_days t sem div' (xs @ [x]) =
          foldl (\<lambda>tbl slot. cell_set tbl x slot (holiday_text sem div'))
            (mark_whole_days t sem div' xs)
            (map fst (row_of (mark_whole_days t sem div' xs) x))"
    by (simp add: mark_whole_days_def)
  then show ?case
    using snoc by (auto simp add: mark_day_cell mark_whole_days_keys simp del: set_map)
qed

lemma row_entry_cell:
  "(slot, v) \<in> set (row_of t d) \<Longrightarrow> distinct (map fst (row_of t d)) \<Longrightarrow> cell_get t d slot = v"
  by (simp add: cell_get_def)

subsection \<open>The division store\<close>

lemma ensure_div_table_props:
  assumes "ensure_div_table fds dts sem div' sh = (dts', dtbl, sh')"
  shows "\<exists>e. map_of dts' (sem, div') = Some e \<and> d_table e = dtbl \<and> d_shift e = sh'"
    and "k \<noteq> (sem, div') \<Longrightarrow> map_of dts' k = map_of dts k"
    and "map_of dts (sem, div') = Some e0 \<Longrightarrow> dts' = dts \<and> dtbl = d_table e0 \<and> sh' = d_shift e0"
    and "map_of dts (sem, div') = None \<Longrightarrow>
           sh' = sh \<and> dtbl = mark_holidays (empty_table_for_shift sh) sh sem div' (fds_get fds sem div')"
  using assms
  by (auto simp: ensure_div_table_def update_conv' Let_def split: option.splits)

lemma map_of_dtables_put:
  "map_of (dtables_put dts sem div' tbl) k =
     (if k = (sem, div') then map_option (\<lambda>e. e\<lparr>d_table := tbl\<rparr>) (map_of dts k)
      else map_of dts k)"
  by (auto simp: dtables_put_def map_of_map_entry split: option.splits)

subsection \<open>Free-day pre-marking\<close>







subsection \<open>When a placer must fail\<close>

lemma first_some_NoneI: "(\<And>x. x \<in> set xs \<Longrightarrow> body x = None) \<Longrightarrow> first_some body xs = None"
  by (simp add: first_some_None_iff)

lemma adjacent_pairs_mem: "(a, b) \<in> set (adjacent_pairs xs) \<Longrightarrow> a \<in> set xs \<and> b \<in> set xs"
  by (induction xs rule: adjacent_pairs.induct) auto

lemma consecutive_pairs_mem:
  "(a, b) \<in> set (consecutive_pairs_for_shift sh) \<Longrightarrow>
     a \<in> set (SHIFT_SLOTS sh) \<and> b \<in> set (SHIFT_SLOTS sh)"
  by (auto simp: consecutive_pairs_for_shift_def dest: adjacent_pairs_mem)

lemma teaching_slots_mem: "s \<in> set (teaching_slots sh) \<Longrightarrow> s \<in> set (SHIFT_SLOTS sh)"
  by (simp add: teaching_slots_def)

lemma theory_scan_day_no_faculty_slot:
  "\<forall>d. \<forall>s \<in> set (SHIFT_SLOTS fshift). \<not> free_slot ftbl d s \<Longrightarrow>
     theory_scan_day ftbl dtbl fshift dshift d = None"
  unfolding theory_scan_day_def by (rule first_some_NoneI) simp

lemma theory_scan_day_no_division_slot:
  "\<forall>d. \<forall>s \<in> set (SHIFT_SLOTS dshift). \<not> free_slot dtbl d s \<Longrightarrow>
     theory_scan_day ftbl dtbl fshift dshift d = None"
  unfolding theory_scan_day_def
  by (rule first_some_NoneI) (simp add: first_some_NoneI)

lemma lab_scan_day_no_faculty_slot:
  "\<forall>d. \<forall>s \<in> set (SHIFT_SLOTS fshift). \<not> free_slot ftbl d s \<Longrightarrow>
     lab_scan_day ftbl dtbl fshift dshift d = None"
  unfolding lab_scan_day_def
  by (rule first_some_NoneI) (auto simp: free_pair_def dest: consecutive_pairs_mem)

lemma lab_flex_scan_no_faculty_slot:
  "\<forall>d. \<forall>s \<in> set (SHIFT_SLOTS fshift). \<not> free_slot ftbl d s \<Longrightarrow>
   \<forall>c \<in> set cands. snd c \<in> set (consecutive_pairs_for_shift fshift) \<Longrightarrow>
     lab_flex_scan ftbl dtbl fshift dshift sem div' avoid_dup cands r = (None, r)"
proof (induction cands)
  case Nil
  then show ?case by simp
next
  case (Cons c cands)
  obtain fday fs1 fs2 where c: "c = (fday, (fs1, fs2))" by (cases c) auto
  with Cons.prems have "\<not> free_pair ftbl fday fs1 fs2"
    by (auto simp: free_pair_def dest: consecutive_pairs_mem)
  with Cons c show ?case by simp
qed

lemma lock_theory_fails:
  assumes "(\<forall>d. \<forall>s \<in> set (SHIFT_SLOTS fshift). \<not> free_slot ftbl d s) \<or>
           (\<forall>d. \<forall>s \<in> set (SHIFT_SLOTS dshift). \<not> free_slot dtbl d s)"
  shows "lock_theory fds ftbl dtbl fshift dshift fname sem div' sub avoid_dup r =
           (False, ftbl, dtbl, snd (sample (snd (sample r))))"
proof -
  have "theory_scan_day ftbl dtbl fshift dshift d = None" for d
    using assms theory_scan_day_no_faculty_slot theory_scan_day_no_division_slot by blast
  then show ?thesis
    by (simp add: lock_theory_def first_some_NoneI split: prod.splits)
qed

lemma lock_lab_fails:
  assumes "\<forall>d. \<forall>s \<in> set (SHIFT_SLOTS fshift). \<not> free_slot ftbl d s"
  shows "\<not> fst (lock_lab fds ftbl dtbl fshift dshift fname sem div' sub b avoid_dup r)"
proof -
  have "lab_scan_day ftbl dtbl fshift dshift d = None" for d
    using assms by (rule lab_scan_day_no_faculty_slot)
  moreover have "lab_flex_scan ftbl dtbl fshift dshift sem div' avoid_dup
                   (List.product fdays (consecutive_pairs_for_shift fshift)) r2 = (None, r2)"
    for fdays r2
    using assms by (rule lab_flex_scan_no_faculty_slot) auto
  ultimately show ?thesis
    by (simp add: lock_lab_def first_some_NoneI split: prod.splits)
qed

lemma force_place_theory_fails:
  assumes "(\<forall>d. \<forall>s \<in> set (SHIFT_SLOTS fshift). \<not> free_slot ftbl d s) \<or>
           (\<forall>d. \<forall>s \<in> set (SHIFT_SLOTS dshift). \<not> free_slot dtbl d s)"
  shows "force_place_theory fds ftbl dtbl fshift dshift fname sem div' sub = (False, ftbl, dtbl)"
proof -
  have "force_theory_tight fds ftbl dtbl fshift dshift sem div' = None"
    unfolding force_theory_tight_def using assms
    by (intro first_some_NoneI) (auto intro!: first_some_NoneI simp: teaching_slots_def)
  moreover have "force_theory_relaxed ftbl dtbl fshift dshift = None"
    unfolding force_theory_relaxed_def using assms
    by (intro first_some_NoneI) (auto intro!: first_some_NoneI simp: teaching_slots_def)
  ultimately show ?thesis by (simp add: force_place_theory_def)
qed

lemma force_place_lab_fails:
  assumes "\<forall>d. \<forall>s \<in> set (SHIFT_SLOTS fshift). \<not> free_slot ftbl d s"
  shows "\<not> fst (force_place_lab fds ftbl dtbl fshift dshift fname sem div' sub b)"
proof -
  have np: "\<not> free_pair ftbl d fs1 fs2" if "(fs1, fs2) \<in> set (consecutive_pairs_for_shift fshift)"
    for d fs1 fs2
    using assms that by (auto simp: free_pair_def dest: consecutive_pairs_mem)
  have "force_lab_tight fds ftbl dtbl fshift dshift sem div' = None"
    unfolding force_lab_tight_def using np
    by (intro first_some_NoneI) (auto intro!: first_some_NoneI)
  moreover have "force_lab_relaxed ftbl dtbl fshift dshift = None"
    unfolding force_lab_relaxed_def using np
    by (intro first_some_NoneI) (auto intro!: first_some_NoneI)
  ultimately show ?thesis by (simp add: force_place_lab_def)
qed

text \<open>A grid of a shift whose every day is marked has no free slot among the shift's labels.\<close>

lemma all_days: "d \<in> set DAYS"
  by (cases d) (simp_all add: DAYS_def)

lemma marked_all_week_no_free:
  "s \<in> set (SHIFT_SLOTS sh) \<Longrightarrow>
     \<not> free_slot (mark_holidays (empty_table_for_shift sh) sh sem div' DAYS) d s"
  using placed_text_not_blank(2) [of sem div'] inert_not_blank [of s]
  by (simp add: free_slot_strip cell_get_mark_holidays cell_get_empty_table_for_shift all_days)

lemma blocked_table_no_free: "\<forall>d. \<forall>s \<in> set (SHIFT_SLOTS S8_3). \<not> free_slot blocked_table d s"
  by (simp add: blocked_table_def marked_all_week_no_free del: SHIFT_SLOTS.simps)

theorem placement_atomic_on_failure_witness:
  "\<not> fst (lock_theory [] blocked_table blocked_table S8_3 S8_3 ''F'' ''3'' ''A'' ''X'' True in_order) \<and>
   fst (snd (lock_theory [] blocked_table blocked_table S8_3 S8_3 ''F'' ''3'' ''A'' ''X'' True in_order)) = blocked_table \<and>
   fst (snd (snd (lock_theory [] blocked_table blocked_table S8_3 S8_3 ''F'' ''3'' ''A'' ''X'' True in_order))) = blocked_table \<and>
   \<not> fst (lock_lab [] blocked_table blocked_table S8_3 S8_3 ''F'' ''3'' ''A'' ''X'' ''B1'' True in_order) \<and>
   fst (snd (lock_lab [] blocked_table blocked_table S8_3 S8_3 ''F'' ''3'' ''A'' ''X'' ''B1'' True in_order)) = blocked_table \<and>
   fst (snd (snd (lock_lab [] blocked_table blocked_table S8_3 S8_3 ''F'' ''3'' ''A'' ''X'' ''B1'' True in_order))) = blocked_table \<and>
   \<not> fst (force_place_theory [] blocked_table blocked_table S8_3 S8_3 ''F'' ''3'' ''A'' ''X'') \<and>
   fst (snd (force_place_theory [] blocked_table blocked_table S8_3 S8_3 ''F'' ''3'' ''A'' ''X'')) = blocked_table \<and>
   snd (snd (force_place_theory [] blocked_table blocked_table S8_3 S8_3 ''F'' ''3'' ''A'' ''X'')) = blocked_table \<and>
   \<not> fst (force_place_lab [] blocked_table blocked_table S8_3 S8_3 ''F'' ''3'' ''A'' ''X'' ''B1'') \<and>
   fst (snd (force_place_lab [] blocked_table blocked_table S8_3 S8_3 ''F'' ''3'' ''A'' ''X'' ''B1'')) = blocked_table \<and>
   snd (snd (force_place_lab [] blocked_table blocked_table S8_3 S8_3 ''F'' ''3'' ''A'' ''X'' ''B1'')) = blocked_table"
proof -
  have a: "\<not> fst (lock_theory [] blocked_table blocked_table S8_3 S8_3 ''F'' ''3'' ''A'' ''X'' True in_order)"
    using blocked_table_no_free by (simp add: lock_theory_fails del: SHIFT_SLOTS.simps)
  have b: "\<not> fst (lock_lab [] blocked_table blocked_table S8_3 S8_3 ''F'' ''3'' ''A'' ''X'' ''B1'' True in_order)"
    using blocked_table_no_free by (rule lock_lab_fails)
  have c: "\<not> fst (force_place_theory [] blocked_table blocked_table S8_3 S8_3 ''F'' ''3'' ''A'' ''X'')"
    using blocked_table_no_free by (simp add: force_place_theory_fails del: SHIFT_SLOTS.simps)
  have d: "\<not> fst (force_place_lab [] blocked_table blocked_table S8_3 S8_3 ''F'' ''3'' ''A'' ''X'' ''B1'')"
    using blocked_table_no_free by (rule force_place_lab_fails)
  show ?thesis
    using a b c d
      placement_atomic_on_failure [of "[]" blocked_table blocked_table S8_3 S8_3 "''F''" "''3''"
        "''A''" "''X''" True in_order "''B1''"]
    by blast
qed

subsection \<open>Slot equivalence of paired placements\<close>

lemma slots_equivalent_canonical:
  "slots_equivalent fshift fs dshift ds \<Longrightarrow>
     \<exists>c. slot_label_to_canonical fs = Inr c \<and> slot_label_to_canonical ds = Inr c"
  by (blast dest: slots_equivalentD CANONICAL_MAP_SomeD)

lemma theory_write_equivalent:
  assumes "theory_place_ok ftbl dtbl fshift dshift p"
    and "write_theory ftbl dtbl fname sem div' sub p = (ftbl', dtbl')"
  shows "\<exists>fday fs dday ds c.
           ftbl' = cell_set ftbl fday fs (theory_ftext sub sem div') \<and>
           dtbl' = cell_set dtbl dday ds (theory_dtext sub fname) \<and>
           slot_label_to_canonical fs = Inr c \<and> slot_label_to_canonical ds = Inr c"
proof -
  obtain fday fs dday ds where p: "p = (fday, fs, dday, ds)" by (cases p) auto
  with assms(1) obtain c where "slot_label_to_canonical fs = Inr c"
    "slot_label_to_canonical ds = Inr c"
    by (auto simp: theory_place_ok_def dest: slots_equivalent_canonical)
  moreover from assms(2) p have "ftbl' = cell_set ftbl fday fs (theory_ftext sub sem div')"
    "dtbl' = cell_set dtbl dday ds (theory_dtext sub fname)"
    by (auto simp: write_theory_def)
  ultimately show ?thesis by blast
qed

lemma lab_write_equivalent:
  assumes "lab_place_ok ftbl dtbl fshift dshift p"
    and "write_lab ftbl dtbl fname sem div' sub b p = (ftbl', dtbl')"
  shows "\<exists>fday fs1 fs2 dday ds1 ds2 c1 c2.
           ftbl' = cell_set (cell_set ftbl fday fs1 (lab_ftext sub sem div' b)) fday fs2 ''MERGE'' \<and>
           dtbl' = cell_set (cell_set dtbl dday ds1 (lab_dtext sub fname b)) dday ds2 ''MERGE'' \<and>
           slot_label_to_canonical fs1 = Inr c1 \<and> slot_label_to_canonical ds1 = Inr c1 \<and>
           slot_label_to_canonical fs2 = Inr c2 \<and> slot_label_to_canonical ds2 = Inr c2"
proof -
  obtain fday fs1 fs2 dday ds1 ds2 where p: "p = (fday, (fs1, fs2), dday, (ds1, ds2))"
    by (cases p) auto
  with assms(1) obtain c1 c2 where
    "slot_label_to_canonical fs1 = Inr c1" "slot_label_to_canonical ds1 = Inr c1"
    "slot_label_to_canonical fs2 = Inr c2" "slot_label_to_canonical ds2 = Inr c2"
    unfolding lab_place_ok_def pair_slots_equivalent_def
    by (auto dest!: slots_equivalent_canonical)
  moreover from assms(2) p have
    "ftbl' = cell_set (cell_set ftbl fday fs1 (lab_ftext sub sem div' b)) fday fs2 ''MERGE''"
    "dtbl' = cell_set (cell_set dtbl dday ds1 (lab_dtext sub fname b)) dday ds2 ''MERGE''"
    by (auto simp: write_lab_def)
  ultimately show ?thesis by blast
qed

text \<open>
  C6. Every successful placement, by the lock pass, its fallback, the tight or the relaxed
  force pass, writes a faculty cell and a division cell whose slot labels have the same
  canonical (start, end) pair; for a lab this holds for the first slots of the two pairs
  and for the second slots.
\<close>

theorem paired_placement_slots_equivalent:
  "(fst (lock_theory fds ftbl dtbl fshift dshift fname sem div' sub avoid_dup r) \<longrightarrow>
      (\<exists>fday fs dday ds c.
         fst (snd (lock_theory fds ftbl dtbl fshift dshift fname sem div' sub avoid_dup r)) =
           cell_set ftbl fday fs (theory_ftext sub sem div') \<and>
         fst (snd (snd (lock_theory fds ftbl dtbl fshift dshift fname sem div' sub avoid_dup r))) =
           cell_set dtbl dday ds (theory_dtext sub fname) \<and>
         slot_label_to_canonical fs = Inr c \<and> slot_label_to_canonical ds = Inr c)) \<and>
   (fst (force_place_theory fds ftbl dtbl fshift dshift fname sem div' sub) \<longrightarrow>
      (\<exists>fday fs dday ds c.
         fst (snd (force_place_theory fds ftbl dtbl fshift dshift fname sem div' sub)) =
           cell_set ftbl fday fs (theory_ftext sub sem div') \<and>
         snd (snd (force_place_theory fds ftbl dtbl fshift dshift fname sem div' sub)) =
           cell_set dtbl dday ds (theory_dtext sub fname) \<and>
         slot_label_to_canonical fs = Inr c \<and> slot_label_to_canonical ds = Inr c)) \<and>
   (fst (lock_lab fds ftbl dtbl fshift dshift fname sem div' sub b avoid_dup r) \<longrightarrow>
      (\<exists>fday fs1 fs2 dday ds1 ds2 c1 c2.
         fst (snd (lock_lab fds ftbl dtbl fshift dshift fname sem div' sub b avoid_dup r)) =
           cell_set (cell_set ftbl fday fs1 (lab_ftext sub sem div' b)) fday fs2 ''MERGE'' \<and>
         fst (snd (snd (lock_lab fds ftbl dtbl fshift dshift fname sem div' sub b avoid_dup r))) =
           cell_set (cell_set dtbl dday ds1 (lab_dtext sub fname b)) dday ds2 ''MERGE'' \<and>
         slot_label_to_canonical fs1 = Inr c1 \<and> slot_label_to_canonical ds1 = Inr c1 \<and>
         slot_label_to_canonical fs2 = Inr c2 \<and> slot_label_to_canonical ds2 = Inr c2)) \<and>
   (fst (force_place_lab fds ftbl dtbl fshift dshift fname sem div' sub b) \<longrightarrow>
      (\<exists>fday fs1 fs2 dday ds1 ds2 c1 c2.
         fst (snd (force_place_lab fds ftbl dtbl fshift dshift fname sem div' sub b)) =
           cell_set (cell_set ftbl fday fs1 (lab_ftext sub sem div' b)) fday fs2 ''MERGE'' \<and>
         snd (snd (force_place_lab fds ftbl dtbl fshift dshift fname sem div' sub b)) =
           cell_set (cell_set dtbl dday ds1 (lab_dtext sub fname b)) dday ds2 ''MERGE'' \<and>
         slot_label_to_canonical fs1 = Inr c1 \<and> slot_label_to_canonical ds1 = Inr c1 \<and>
         slot_label_to_canonical fs2 = Inr c2 \<and> slot_label_to_canonical ds2 = Inr c2))"
proof (intro conjI impI)
  assume ok: "fst (lock_theory fds ftbl dtbl fshift dshift fname sem div' sub avoid_dup r)"
  obtain b' ft dt r' where
    res: "lock_theory fds ftbl dtbl fshift dshift fname sem div' sub avoid_dup r = (b', ft, dt, r')"
    by (cases "lock_theory fds ftbl dtbl fshift dshift fname sem div' sub avoid_dup r") auto
  from lock_theory_cases [OF res] ok res obtain p where
    "theory_place_ok ftbl dtbl fshift dshift p" "write_theory ftbl dtbl fname sem div' sub p = (ft, dt)"
    by auto
  from theory_write_equivalent [OF this] res show
    "\<exists>fday fs dday ds c.
       fst (snd (lock_theory fds ftbl dtbl fshift dshift fname sem div' sub avoid_dup r)) =
         cell_set ftbl fday fs (theory_ftext sub sem div') \<and>
       fst (snd (snd (lock_theory fds ftbl dtbl fshift dshift fname sem div' sub avoid_dup r))) =
         cell_set dtbl dday ds (theory_dtext sub fname) \<and>
       slot_label_to_canonical fs = Inr c \<and> slot_label_to_canonical ds = Inr c"
    by simp
next
  assume ok: "fst (force_place_theory fds ftbl dtbl fshift dshift fname sem div' sub)"
  obtain b' ft dt where
    res: "force_place_theory fds ftbl dtbl fshift dshift fname sem div' sub = (b', ft, dt)"
    by (cases "force_place_theory fds ftbl dtbl fshift dshift fname sem div' sub") auto
  from force_place_theory_cases [OF res] ok res obtain p where
    "theory_place_ok ftbl dtbl fshift dshift p" "write_theory ftbl dtbl fname sem div' sub p = (ft, dt)"
    by auto
  from theory_write_equivalent [OF this] res show
    "\<exists>fday fs dday ds c.
       fst (snd (force_place_theory fds ftbl dtbl fshift dshift fname sem div' sub)) =
         cell_set ftbl fday fs (theory_ftext sub sem div') \<and>
       snd (snd (force_place_theory fds ftbl dtbl fshift dshift fname sem div' sub)) =
         cell_set dtbl dday ds (theory_dtext sub fname) \<and>
       slot_label_to_canonical fs = Inr c \<and> slot_label_to_canonical ds = Inr c"
    by simp
next
  assume ok: "fst (lock_lab fds ftbl dtbl fshift dshift fname sem div' sub b avoid_dup r)"
  obtain b' ft dt r' where
    res: "lock_lab fds ftbl dtbl fshift dshift fname sem div' sub b avoid_dup r = (b', ft, dt, r')"
    by (cases "lock_lab fds ftbl dtbl fshift dshift fname sem div' sub b avoid_dup r") auto
  from lock_lab_cases [OF res] ok res obtain p where
    "lab_place_ok ftbl dtbl fshift dshift p" "write_lab ftbl dtbl fname sem div' sub b p = (ft, dt)"
    by auto
  from lab_write_equivalent [OF this] res show
    "\<exists>fday fs1 fs2 dday ds1 ds2 c1 c2.
       fst (snd (lock_lab fds ftbl dtbl fshift dshift fname sem div' sub b avoid_dup r)) =
         cell_set (cell_set ftbl fday fs1 (lab_ftext sub sem div' b)) fday fs2 ''MERGE'' \<and>
       fst (snd (snd (lock_lab fds ftbl dtbl fshift dshift fname sem div' sub b avoid_dup r))) =
         cell_set (cell_set dtbl dday ds1 (lab_dtext sub fname b)) dday ds2 ''MERGE'' \<and>
       slot_label_to_canonical fs1 = Inr c1 \<and> slot_label_to_canonical ds1 = Inr c1 \<and>
       slot_label_to_canonical fs2 = Inr c2 \<and> slot_label_to_canonical ds2 = Inr c2"
    by simp
next
  assume ok: "fst (force_place_lab fds ftbl dtbl fshift dshift fname sem div' sub b)"
  obtain b' ft dt where
    res: "force_place_lab fds ftbl dtbl fshift dshift fname sem div' sub b = (b', ft, dt)"
    by (cases "force_place_lab fds ftbl dtbl fshift dshift fname sem div' sub b") auto
  from force_place_lab_cases [OF res] ok res obtain p where
    "lab_place_ok ftbl dtbl fshift dshift p" "write_lab ftbl dtbl fname sem div' sub b p = (ft, dt)"
    by auto
  from lab_write_equivalent [OF this] res show
    "\<exists>fday fs1 fs2 dday ds1 ds2 c1 c2.
       fst (snd (force_place_lab fds ftbl dtbl fshift dshift fname sem div' sub b)) =
         cell_set (cell_set ftbl fday fs1 (lab_ftext sub sem div' b)) fday fs2 ''MERGE'' \<and>
       snd (snd (force_place_lab fds ftbl dtbl fshift dshift fname sem div' sub b)) =
         cell_set (cell_set dtbl dday ds1 (lab_dtext sub fname b)) dday ds2 ''MERGE'' \<and>
       slot_label_to_canonical fs1 = Inr c1 \<and> slot_label_to_canonical ds1 = Inr c1 \<and>
       slot_label_to_canonical fs2 = Inr c2 \<and> slot_label_to_canonical ds2 = Inr c2"
    by simp
qed

theorem paired_placement_slots_equivalent_witness:
  "fst (lock_theory [] (empty_table_for_shift S10_5) (empty_table_for_shift S8_3) S10_5 S8_3
          ''F'' ''3'' ''A'' ''X'' True in_order) \<and>
   fst (force_place_theory [] (empty_table_for_shift S10_5) (empty_table_for_shift S8_3) S10_5 S8_3
          ''F'' ''3'' ''A'' ''X'') \<and>
   fst (lock_lab [] (empty_table_for_shift S10_5) (empty_table_for_shift S8_3) S10_5 S8_3
          ''F'' ''3'' ''A'' ''X'' ''B1'' True in_order) \<and>
   fst (force_place_lab [] (empty_table_for_shift S10_5) (empty_table_for_shift S8_3) S10_5 S8_3
          ''F'' ''3'' ''A'' ''X'' ''B1'') \<and>
   (\<exists>fday fs dday ds c.
      fst (snd (lock_theory [] (empty_table_for_shift S10_5) (empty_table_for_shift S8_3) S10_5
                  S8_3 ''F'' ''3'' ''A'' ''X'' True in_order)) =
        cell_set (empty_table_for_shift S10_5) fday fs (theory_ftext ''X'' ''3'' ''A'') \<and>
      fst (snd (snd (lock_theory [] (empty_table_for_shift S10_5) (empty_table_for_shift S8_3)
                       S10_5 S8_3 ''F'' ''3'' ''A'' ''X'' True in_order))) =
        cell_set (empty_table_for_shift S8_3) dday ds (theory_dtext ''X'' ''F'') \<and>
      slot_label_to_canonical fs = Inr c \<and> slot_label_to_canonical ds = Inr c) \<and>
   (\<exists>fday fs1 fs2 dday ds1 ds2 c1 c2.
      fst (snd (force_place_lab [] (empty_table_for_shift S10_5) (empty_table_for_shift S8_3)
                  S10_5 S8_3 ''F'' ''3'' ''A'' ''X'' ''B1'')) =
        cell_set (cell_set (empty_table_for_shift S10_5) fday fs1
                    (lab_ftext ''X'' ''3'' ''A'' ''B1'')) fday fs2 ''MERGE'' \<and>
      snd (snd (force_place_lab [] (empty_table_for_shift S10_5) (empty_table_for_shift S8_3)
                  S10_5 S8_3 ''F'' ''3'' ''A'' ''X'' ''B1'')) =
        cell_set (cell_set (empty_table_for_shift S8_3) dday ds1
                    (lab_dtext ''X'' ''F'' ''B1'')) dday ds2 ''MERGE'' \<and>
      slot_label_to_canonical fs1 = Inr c1 \<and> slot_label_to_canonical ds1 = Inr c1 \<and>
      slot_label_to_canonical fs2 = Inr c2 \<and> slot_label_to_canonical ds2 = Inr c2)"
proof -
  have a: "fst (lock_theory [] (empty_table_for_shift S10_5) (empty_table_for_shift S8_3) S10_5 S8_3
          ''F'' ''3'' ''A'' ''X'' True in_order)"
    by code_simp
  have b: "fst (force_place_theory [] (empty_table_for_shift S10_5) (empty_table_for_shift S8_3)
          S10_5 S8_3 ''F'' ''3'' ''A'' ''X'')"
    by code_simp
  have c: "fst (lock_lab [] (empty_table_for_shift S10_5) (empty_table_for_shift S8_3) S10_5 S8_3
          ''F'' ''3'' ''A'' ''X'' ''B1'' True in_order)"
    by code_simp
  have d: "fst (force_place_lab [] (empty_table_for_shift S10_5) (empty_table_for_shift S8_3)
          S10_5 S8_3 ''F'' ''3'' ''A'' ''X'' ''B1'')"
    by code_simp
  note t = paired_placement_slots_equivalent [of "[]" "empty_table_for_shift S10_5"
      "empty_table_for_shift S8_3" S10_5 S8_3 "''F''" "''3''" "''A''" "''X''" True in_order "''B1''"]
  from t a have e: "\<exists>fday fs dday ds c.
      fst (snd (lock_theory [] (empty_table_for_shift S10_5) (empty_table_for_shift S8_3) S10_5
                  S8_3 ''F'' ''3'' ''A'' ''X'' True in_order)) =
        cell_set (empty_table_for_shift S10_5) fday fs (theory_ftext ''X'' ''3'' ''A'') \<and>
      fst (snd (snd (lock_theory [] (empty_table_for_shift S10_5) (empty_table_for_shift S8_3)
                       S10_5 S8_3 ''F'' ''3'' ''A'' ''X'' True in_order))) =
        cell_set (empty_table_for_shift S8_3) dday ds (theory_dtext ''X'' ''F'') \<and>
      slot_label_to_canonical fs = Inr c \<and> slot_label_to_canonical ds = Inr c"
    by (elim conjE) (erule mp)
  from t d have f: "\<exists>fday fs1 fs2 dday ds1 ds2 c1 c2.
      fst (snd (force_place_lab [] (empty_table_for_shift S10_5) (empty_table_for_shift S8_3)
                  S10_5 S8_3 ''F'' ''3'' ''A'' ''X'' ''B1'')) =
        cell_set (cell_set (empty_table_for_shift S10_5) fday fs1
                    (lab_ftext ''X'' ''3'' ''A'' ''B1'')) fday fs2 ''MERGE'' \<and>
      snd (snd (force_place_lab [] (empty_table_for_shift S10_5) (empty_table_for_shift S8_3)
                  S10_5 S8_3 ''F'' ''3'' ''A'' ''X'' ''B1'')) =
        cell_set (cell_set (empty_table_for_shift S8_3) dday ds1
                    (lab_dtext ''X'' ''F'' ''B1'')) dday ds2 ''MERGE'' \<and>
      slot_label_to_canonical fs1 = Inr c1 \<and> slot_label_to_canonical ds1 = Inr c1 \<and>
      slot_label_to_canonical fs2 = Inr c2 \<and> slot_label_to_canonical ds2 = Inr c2"
    by (elim conjE) (erule mp)
  from a b c d e f show ?thesis by (intro conjI)
qed

subsection \<open>Shift-window admissibility\<close>

lemma theory_write_late_start:
  assumes "theory_place_ok ftbl dtbl S10_5 dshift p"
    and "write_theory ftbl dtbl fname sem div' sub p = (ftbl', dtbl')"
    and "cell_get dtbl' d slot \<noteq> cell_get dtbl d slot"
  shows "\<exists>s e. slot_label_to_canonical slot = Inr (s, e) \<and> 600 \<le> s"
proof -
  obtain fday fs dday ds where p: "p = (fday, fs, dday, ds)" by (cases p) auto
  with assms(2,3) have "slot = ds"
    by (auto simp: write_theory_def cell_get_cell_set split: if_splits)
  moreover from assms(1) p have "slots_equivalent S10_5 fs dshift ds"
    by (simp add: theory_place_ok_def)
  ultimately show ?thesis by (auto dest: equivalent_to_late_start)
qed

lemma lab_write_late_start:
  assumes "lab_place_ok ftbl dtbl S10_5 dshift p"
    and "write_lab ftbl dtbl fname sem div' sub b p = (ftbl', dtbl')"
    and "cell_get dtbl' d slot \<noteq> cell_get dtbl d slot"
  shows "\<exists>s e. slot_label_to_canonical slot = Inr (s, e) \<and> 600 \<le> s"
proof -
  obtain fday fs1 fs2 dday ds1 ds2 where p: "p = (fday, (fs1, fs2), dday, (ds1, ds2))"
    by (cases p) auto
  with assms(2,3) have "slot = ds1 \<or> slot = ds2"
    by (auto simp: write_lab_def cell_get_cell_set split: if_splits)
  moreover from assms(1) p have "slots_equivalent S10_5 fs1 dshift ds1"
    "slots_equivalent S10_5 fs2 dshift ds2"
    by (simp_all add: lab_place_ok_def pair_slots_equivalent_def)
  ultimately show ?thesis by (auto dest: equivalent_to_late_start)
qed

subsection \<open>Slot-label parsing\<close>

lemma digit_facts:
  "\<not> is_digit CHR '':''" "\<not> is_digit CHR ''-''" "is_digit c \<Longrightarrow> \<not> is_space c"
  "is_digit c \<Longrightarrow> c \<noteq> CHR ''-''" "\<not> is_space CHR '':''" "is_digit c \<Longrightarrow> c \<noteq> CHR '':''"
  by (auto simp: is_digit_def is_space_def)

lemma digits12_all: "digits12 s \<Longrightarrow> \<forall>c \<in> set s. is_digit c"
  by (simp add: digits12_def list_all_iff)

lemma RE_TIME_PART_Some_iff:
  "RE_TIME_PART tok = Some (g1, g2) \<longleftrightarrow>
     (digits12 tok \<and> g1 = tok \<and> g2 = None) \<or>
     (\<exists>M. tok = g1 @ CHR '':'' # M \<and> digits12 g1 \<and> digits12 M \<and> g2 = Some M)"
proof
  assume a: "RE_TIME_PART tok = Some (g1, g2)"
  let ?g = "takeWhile is_digit tok" and ?r = "dropWhile is_digit tok"
  have tok: "tok = ?g @ ?r" by simp
  from a have g: "digits12 ?g" "g1 = ?g"
    by (auto simp: RE_TIME_PART_def Let_def split: if_splits)
  show "(digits12 tok \<and> g1 = tok \<and> g2 = None) \<or>
     (\<exists>M. tok = g1 @ CHR '':'' # M \<and> digits12 g1 \<and> digits12 M \<and> g2 = Some M)"
  proof (cases "?r = []")
    case True
    with a g tok show ?thesis
      by (auto simp: RE_TIME_PART_def Let_def split: if_splits)
  next
    case False
    with a have "hd ?r = CHR '':''" "digits12 (tl ?r)" "g2 = Some (tl ?r)"
      by (auto simp: RE_TIME_PART_def Let_def split: if_splits)
    with False have "?r = CHR '':'' # tl ?r" by (metis list.collapse)
    with tok g \<open>digits12 (tl ?r)\<close> \<open>g2 = Some (tl ?r)\<close> show ?thesis by metis
  qed
next
  assume "(digits12 tok \<and> g1 = tok \<and> g2 = None) \<or>
     (\<exists>M. tok = g1 @ CHR '':'' # M \<and> digits12 g1 \<and> digits12 M \<and> g2 = Some M)"
  then show "RE_TIME_PART tok = Some (g1, g2)"
  proof
    assume b: "digits12 tok \<and> g1 = tok \<and> g2 = None"
    then have "takeWhile is_digit tok = tok \<and> dropWhile is_digit tok = []"
      using digits12_all [of tok] by simp
    with b show ?thesis unfolding RE_TIME_PART_def Let_def by presburger
  next
    assume "\<exists>M. tok = g1 @ CHR '':'' # M \<and> digits12 g1 \<and> digits12 M \<and> g2 = Some M"
    then obtain M where b: "tok = g1 @ CHR '':'' # M" "digits12 g1" "digits12 M" "g2 = Some M"
      by blast
    then have "takeWhile is_digit tok = g1 \<and> dropWhile is_digit tok = CHR '':'' # M"
      using digits12_all [of g1] by (simp add: digit_facts)
    with b show ?thesis unfolding RE_TIME_PART_def Let_def by simp
  qed
qed

lemma hm_endpoint_RE:
  "hm_endpoint tok h m \<longleftrightarrow>
     (\<exists>g1 g2. RE_TIME_PART tok = Some (g1, g2) \<and> h = int_of_digits g1 \<and>
        m = (case g2 of None \<Rightarrow> 0 | Some g \<Rightarrow> int_of_digits g))"
proof
  assume "hm_endpoint tok h m"
  then consider "digits12 tok" "h = int_of_digits tok" "m = 0"
    | H M where "tok = H @ CHR '':'' # M" "digits12 H" "digits12 M"
        "h = int_of_digits H" "m = int_of_digits M"
    by (auto simp: hm_endpoint_def)
  then show "\<exists>g1 g2. RE_TIME_PART tok = Some (g1, g2) \<and> h = int_of_digits g1 \<and>
        m = (case g2 of None \<Rightarrow> 0 | Some g \<Rightarrow> int_of_digits g)"
  proof cases
    case 1
    then have "RE_TIME_PART tok = Some (tok, None)" by (simp add: RE_TIME_PART_Some_iff)
    with 1 show ?thesis by simp
  next
    case 2
    then have "RE_TIME_PART tok = Some (H, Some M)" by (simp add: RE_TIME_PART_Some_iff)
    with 2 show ?thesis by simp
  qed
next
  assume "\<exists>g1 g2. RE_TIME_PART tok = Some (g1, g2) \<and> h = int_of_digits g1 \<and>
        m = (case g2 of None \<Rightarrow> 0 | Some g \<Rightarrow> int_of_digits g)"
  then obtain g1 g2 where r: "RE_TIME_PART tok = Some (g1, g2)" "h = int_of_digits g1"
    "m = (case g2 of None \<Rightarrow> 0 | Some g \<Rightarrow> int_of_digits g)"
    by blast
  from r(1) consider "digits12 tok" "g1 = tok" "g2 = None"
    | M where "tok = g1 @ CHR '':'' # M" "digits12 g1" "digits12 M" "g2 = Some M"
    unfolding RE_TIME_PART_Some_iff by blast
  then show "hm_endpoint tok h m"
  proof cases
    case 1
    with r show ?thesis by (simp add: hm_endpoint_def)
  next
    case 2
    with r show ?thesis by (auto simp: hm_endpoint_def)
  qed
qed

lemma parse_time_token_Inr_iff:
  "parse_time_token tok = Inr v \<longleftrightarrow>
     (\<exists>h m. hm_endpoint (strip tok) h m \<and> v = canonical_minutes h m)"
  unfolding hm_endpoint_RE
  by (auto simp: parse_time_token_def canonical_minutes_def Let_def split: option.splits)

lemma parse_time_token_Inl: "parse_time_token tok = Inl e \<Longrightarrow> e = ValueError"
  by (auto simp: parse_time_token_def Let_def split: option.splits)

lemma hm_endpoint_unique:
  "hm_endpoint tok h m \<Longrightarrow> hm_endpoint tok h' m' \<Longrightarrow> h' = h \<and> m' = m"
  unfolding hm_endpoint_RE by auto

lemma split_on_aux_no_sep: "sep \<notin> set s \<Longrightarrow> split_on_aux sep cur s = [rev cur @ s]"
  by (induction s arbitrary: cur) auto

lemma split_on_aux_sep:
  "sep \<notin> set a \<Longrightarrow>
     split_on_aux sep cur (a @ sep # rest) = (rev cur @ a) # split_on_aux sep [] rest"
  by (induction a arbitrary: cur) auto

lemma split_on_aux_not_Nil: "split_on_aux sep cur s \<noteq> []"
  by (induction s arbitrary: cur) auto

lemma split_on_two_iff:
  "split_on sep s = [a, b] \<longleftrightarrow> s = a @ sep # b \<and> sep \<notin> set a \<and> sep \<notin> set b"
proof
  assume r: "split_on sep s = [a, b]"
  show "s = a @ sep # b \<and> sep \<notin> set a \<and> sep \<notin> set b"
  proof (cases "sep \<in> set s")
    case False
    with r show ?thesis by (simp add: split_on_def split_on_aux_no_sep)
  next
    case True
    then obtain a' rest where s: "s = a' @ sep # rest" "sep \<notin> set a'"
      by (auto dest: split_list_first)
    with r have a: "a = a'" and t: "split_on_aux sep [] rest = [b]"
      by (simp_all add: split_on_def split_on_aux_sep)
    have "sep \<notin> set rest"
    proof
      assume "sep \<in> set rest"
      then obtain a2 r2 where "rest = a2 @ sep # r2" "sep \<notin> set a2"
        by (auto dest: split_list_first)
      with t show False by (simp add: split_on_aux_sep split_on_aux_not_Nil)
    qed
    with t s a show ?thesis by (simp add: split_on_aux_no_sep)
  qed
next
  assume "s = a @ sep # b \<and> sep \<notin> set a \<and> sep \<notin> set b"
  then show "split_on sep s = [a, b]"
    by (simp add: split_on_def split_on_aux_sep split_on_aux_no_sep)
qed

lemma split_ws_aux_cur:
  "cur \<noteq> [] \<Longrightarrow>
     \<exists>rest. split_ws_aux cur s = (rev cur @ takeWhile (\<lambda>c. \<not> is_space c) s) # rest"
proof (induction s arbitrary: cur)
  case Nil
  then show ?case by simp
next
  case (Cons c s)
  show ?case
  proof (cases "is_space c")
    case True
    with Cons.prems show ?thesis by simp
  next
    case False
    with Cons.IH [of "c # cur"] show ?thesis by simp
  qed
qed

lemma split_ws_aux_Nil:
  "split_ws_aux [] s = (case dropWhile is_space s of [] \<Rightarrow> [] | c # cs \<Rightarrow> split_ws_aux [c] cs)"
  by (induction s) auto

lemma split_ws_first_token:
  "(case split_ws l of [] \<Rightarrow> None | t # _ \<Rightarrow> Some t) = first_token l"
proof (cases "dropWhile is_space l")
  case Nil
  then show ?thesis
    by (simp add: split_ws_def split_ws_aux_Nil first_token_def del: dropWhile_eq_Nil_conv)
next
  case (Cons c cs)
  then have "\<not> is_space c" using hd_dropWhile [of is_space l] by auto
  moreover obtain rest where
    "split_ws_aux [c] cs = (rev [c] @ takeWhile (\<lambda>c. \<not> is_space c) cs) # rest"
    using split_ws_aux_cur [of "[c]" cs] by auto
  ultimately show ?thesis
    using Cons by (simp add: split_ws_def split_ws_aux_Nil first_token_def del: dropWhile_eq_Nil_conv)
qed

lemma first_token_no_space: "first_token l = Some tok \<Longrightarrow> \<forall>c \<in> set tok. \<not> is_space c"
  by (auto simp: first_token_def Let_def split: if_splits dest: set_takeWhileD)

lemma strip_no_space: "\<forall>c \<in> set s. \<not> is_space c \<Longrightarrow> strip s = s"
proof -
  assume a: "\<forall>c \<in> set s. \<not> is_space c"
  have "dropWhile is_space xs = xs" if "\<forall>c \<in> set xs. \<not> is_space c" for xs
    using that by (cases xs) auto
  from this [of s] this [of "rev s"] a show ?thesis by (simp add: strip_def)
qed

lemma slot_label_first_token:
  "slot_label_to_canonical l =
     (case first_token l of
        None \<Rightarrow> Inl IndexError
      | Some tok \<Rightarrow>
          (case split_on CHR ''-'' tok of
             [a, b] \<Rightarrow>
               (case parse_time_token a of
                  Inl e \<Rightarrow> Inl e
                | Inr start \<Rightarrow>
                    (case parse_time_token b of
                       Inl e \<Rightarrow> Inl e
                     | Inr end' \<Rightarrow> Inr (start, end')))
           | _ \<Rightarrow> Inl ValueError))"
proof (cases "first_token l")
  case None
  then show ?thesis
    using split_ws_first_token [of l]
    by (simp add: slot_label_to_canonical_def split: list.splits)
next
  case (Some tok)
  then obtain rest where sw: "split_ws l = tok # rest"
    using split_ws_first_token [of l] by (auto split: list.splits)
  have ns: "\<forall>c \<in> set tok. \<not> is_space c" using Some by (rule first_token_no_space)
  show ?thesis
  proof (cases "\<exists>a b. split_on CHR ''-'' tok = [a, b]")
    case False
    with Some sw show ?thesis
      by (auto simp: slot_label_to_canonical_def split: list.splits)
  next
    case True
    then obtain a b where ab: "split_on CHR ''-'' tok = [a, b]" by blast
    then have "tok = a @ CHR ''-'' # b" by (simp add: split_on_two_iff)
    with ns have "strip a = a" "strip b = b" by (simp_all add: strip_no_space)
    with Some sw ab show ?thesis by (simp add: slot_label_to_canonical_def cong: sum.case_cong)
  qed
qed

lemma two_endpoints_split:
  "two_endpoints tok \<Longrightarrow> \<exists>a b. split_on CHR ''-'' tok = [a, b]"
  by (auto simp: two_endpoints_def split_on_two_iff)

lemma hm_endpoint_no_space: "hm_endpoint tok h m \<Longrightarrow> \<forall>c \<in> set tok. \<not> is_space c"
  by (auto simp: hm_endpoint_def digit_facts dest!: digits12_all)

lemma parse_endpoint: "hm_endpoint tok h m \<Longrightarrow> parse_time_token tok = Inr (canonical_minutes h m)"
  using hm_endpoint_no_space [of tok h m]
  by (auto simp: parse_time_token_Inr_iff strip_no_space)

lemma parse_not_endpoint:
  "\<forall>c \<in> set tok. \<not> is_space c \<Longrightarrow> \<not> (\<exists>h m. hm_endpoint tok h m) \<Longrightarrow>
     parse_time_token tok = Inl ValueError"
proof -
  assume a: "\<forall>c \<in> set tok. \<not> is_space c" and b: "\<not> (\<exists>h m. hm_endpoint tok h m)"
  then have "\<not> (\<exists>v. parse_time_token tok = Inr v)"
    by (simp add: parse_time_token_Inr_iff strip_no_space)
  then show ?thesis
    using parse_time_token_Inl [of tok] by (cases "parse_time_token tok") auto
qed

text \<open>A label with no token at all (empty, or whitespace only) raises IndexError.\<close>

lemma blank_label_index_error:
  "first_token l = None \<Longrightarrow> slot_label_to_canonical l = Inl IndexError"
  by (simp add: slot_label_first_token)

text \<open>
  For a label of the stated form the two readings agree: the text before the first space
  is the first token.
\<close>

lemma stated_form_first_token:
  assumes "two_endpoints (text_before_first_space l)"
  shows "first_token l = Some (text_before_first_space l)"
proof -
  let ?t = "takeWhile (\<lambda>c. c \<noteq> CHR '' '') l" and ?r = "dropWhile (\<lambda>c. c \<noteq> CHR '' '') l"
  from assms obtain a b h1 m1 h2 m2 where t: "?t = a @ ''-'' @ b"
    "hm_endpoint a h1 m1" "hm_endpoint b h2 m2"
    unfolding two_endpoints_def text_before_first_space_def by blast
  have ns: "\<forall>c \<in> set ?t. \<not> is_space c"
    using hm_endpoint_no_space [OF t(2)] hm_endpoint_no_space [OF t(3)]
    unfolding t(1) by (auto simp: is_space_def)
  have ne: "?t \<noteq> []" unfolding t(1) by simp
  have l: "l = ?t @ ?r" by simp
  have r: "takeWhile (\<lambda>c. \<not> is_space c) ?r = []"
  proof (cases ?r)
    case Nil
    then show ?thesis by (simp del: dropWhile_eq_Nil_conv)
  next
    case (Cons c cs)
    with hd_dropWhile [of "\<lambda>c. c \<noteq> CHR '' ''" l] have "c = CHR '' ''" by auto
    with Cons show ?thesis by (simp add: is_space_def)
  qed
  have "first_token (xs @ ys) = Some xs"
    if "xs \<noteq> []" "\<forall>c \<in> set xs. \<not> is_space c" "takeWhile (\<lambda>c. \<not> is_space c) ys = []"
    for xs ys
  proof -
    from that(1,2) have "dropWhile is_space (xs @ ys) = xs @ ys" by (cases xs) auto
    moreover from that(2,3) have "takeWhile (\<lambda>c. \<not> is_space c) (xs @ ys) = xs"
      by (simp add: takeWhile_append2)
    ultimately show ?thesis using that(1) by (simp add: first_token_def Let_def)
  qed
  from this [OF ne ns r] have "first_token l = Some ?t" by simp
  then show ?thesis by (simp add: text_before_first_space_def)
qed

text \<open>
  C8, as stated, fails on a label that begins with a space: the text before its first
  space is empty, so the label is not of the stated form, and the parser, which takes the
  first whitespace-delimited token, returns a canonical pair.
\<close>

theorem leading_space_label_counterexample:
  "\<not> two_endpoints (text_before_first_space '' 8-9'') \<and>
   slot_label_to_canonical '' 8-9'' = Inr (480, 540)"
proof -
  have "text_before_first_space '' 8-9'' = []" by (simp add: text_before_first_space_def)
  then have "\<not> two_endpoints (text_before_first_space '' 8-9'')"
    by (simp add: two_endpoints_def)
  moreover have "slot_label_to_canonical '' 8-9'' = Inr (480, 540)" by code_simp
  ultimately show ?thesis by simp
qed

text \<open>
  C8, as the code has it. The parsed text is the label's first whitespace-delimited token.
  When it splits on the hyphen into two endpoints, each of the form \<open>H(:M)?\<close>, the result is
  the pair of their minute values, an hour below 8 raised by 12; when the token is not of
  that form the parser raises ValueError and returns no pair.
\<close>

theorem slot_label_parsing:
  "(first_token l = Some (a @ ''-'' @ b) \<and> CHR ''-'' \<notin> set a \<and> CHR ''-'' \<notin> set b \<and>
    hm_endpoint a h1 m1 \<and> hm_endpoint b h2 m2 \<longrightarrow>
      slot_label_to_canonical l = Inr (canonical_minutes h1 m1, canonical_minutes h2 m2)) \<and>
   (first_token l = Some tok \<and> \<not> two_endpoints tok \<longrightarrow>
      slot_label_to_canonical l = Inl ValueError)"
proof (intro conjI impI)
  assume h: "first_token l = Some (a @ ''-'' @ b) \<and> CHR ''-'' \<notin> set a \<and> CHR ''-'' \<notin> set b \<and>
    hm_endpoint a h1 m1 \<and> hm_endpoint b h2 m2"
  then have "split_on CHR ''-'' (a @ ''-'' @ b) = [a, b]" by (simp add: split_on_two_iff)
  moreover from h have "parse_time_token a = Inr (canonical_minutes h1 m1)"
    "parse_time_token b = Inr (canonical_minutes h2 m2)"
    by (simp_all add: parse_endpoint)
  ultimately show
    "slot_label_to_canonical l = Inr (canonical_minutes h1 m1, canonical_minutes h2 m2)"
    using h by (simp add: slot_label_first_token)
next
  assume h: "first_token l = Some tok \<and> \<not> two_endpoints tok"
  then have ns: "\<forall>c \<in> set tok. \<not> is_space c" using first_token_no_space [of l tok] by blast
  show "slot_label_to_canonical l = Inl ValueError"
  proof (cases "\<exists>a b. split_on CHR ''-'' tok = [a, b]")
    case False
    with h show ?thesis
      by (auto simp: slot_label_first_token split: list.splits)
  next
    case True
    then obtain a b where ab: "split_on CHR ''-'' tok = [a, b]" by blast
    then have tok: "tok = a @ ''-'' @ b" "CHR ''-'' \<notin> set a" "CHR ''-'' \<notin> set b"
      by (simp_all add: split_on_two_iff)
    with ns have nsa: "\<forall>c \<in> set a. \<not> is_space c" and nsb: "\<forall>c \<in> set b. \<not> is_space c"
      by auto
    from h tok have "\<not> (\<exists>h m. hm_endpoint a h m) \<or> \<not> (\<exists>h m. hm_endpoint b h m)"
      unfolding two_endpoints_def by blast
    then show ?thesis
    proof
      assume "\<not> (\<exists>h m. hm_endpoint a h m)"
      with nsa have "parse_time_token a = Inl ValueError" by (rule parse_not_endpoint)
      with h ab show ?thesis by (simp add: slot_label_first_token)
    next
      assume "\<not> (\<exists>h m. hm_endpoint b h m)"
      with nsb have "parse_time_token b = Inl ValueError" by (rule parse_not_endpoint)
      with h ab show ?thesis
        using parse_time_token_Inl [of a]
        by (cases "parse_time_token a") (auto simp: slot_label_first_token)
    qed
  qed
qed

theorem slot_label_parsing_witness:
  "first_token ''12:45-1:45 x'' = Some (''12:45'' @ ''-'' @ ''1:45'') \<and>
   CHR ''-'' \<notin> set ''12:45'' \<and> CHR ''-'' \<notin> set ''1:45'' \<and>
   hm_endpoint ''12:45'' 12 45 \<and> hm_endpoint ''1:45'' 1 45 \<and>
   slot_label_to_canonical ''12:45-1:45 x'' = Inr (765, 825) \<and>
   first_token ''8-9-10'' = Some ''8-9-10'' \<and> \<not> two_endpoints ''8-9-10'' \<and>
   slot_label_to_canonical ''8-9-10'' = Inl ValueError"
proof -
  have a: "first_token ''12:45-1:45 x'' = Some (''12:45'' @ ''-'' @ ''1:45'')"
    by (simp add: first_token_def is_space_def)
  have b: "CHR ''-'' \<notin> set ''12:45''" "CHR ''-'' \<notin> set ''1:45''" by simp_all
  have "RE_TIME_PART ''12:45'' = Some (''12'', Some ''45'')"
    "RE_TIME_PART ''1:45'' = Some (''1'', Some ''45'')"
    "int_of_digits ''12'' = 12" "int_of_digits ''1'' = 1" "int_of_digits ''45'' = 45"
    by code_simp+
  then have c: "hm_endpoint ''12:45'' 12 45" "hm_endpoint ''1:45'' 1 45"
    by (simp_all add: hm_endpoint_RE)
  have d: "first_token ''8-9-10'' = Some ''8-9-10''"
    by (simp add: first_token_def is_space_def)
  have "split_on CHR ''-'' ''8-9-10'' = [''8'', ''9'', ''10'']" by code_simp
  then have e: "\<not> two_endpoints ''8-9-10''"
    using two_endpoints_split [of "''8-9-10''"] by auto
  from slot_label_parsing [of "''12:45-1:45 x''" "''12:45''" "''1:45''" 12 45 1 45] a b c
  have f: "slot_label_to_canonical ''12:45-1:45 x'' = Inr (765, 825)"
    by (simp add: canonical_minutes_def)
  from slot_label_parsing [of "''8-9-10''" _ _ _ _ _ _ "''8-9-10''"] d e
  have g: "slot_label_to_canonical ''8-9-10'' = Inl ValueError"
    by blast
  from a b c d e f g show ?thesis by (intro conjI)
qed

subsection \<open>The calls of a run\<close>

lemma engine_steps_append:
  "engine_steps fds s cs s' \<Longrightarrow> engine_steps fds s' cs' s'' \<Longrightarrow> engine_steps fds s (cs @ cs') s''"
  by (induction rule: engine_steps.induct) (auto intro: engine_steps.intros)

lemma engine_steps_single: "engine_step fds s c s' \<Longrightarrow> engine_steps fds s [c] s'"
  by (auto intro: engine_steps.intros)

lemma failed_append: "failed (xs @ ys) = failed xs @ failed ys"
  by (simp add: failed_def)

lemma lock_phase_refl: "lock_phase fds [] (s, p, lg) (s, p, lg)"
  unfolding lock_phase_def
  by (rule exI [of _ "[]"], rule exI [of _ "[]"]) (simp add: failed_def engine_steps.no_call)

lemma lock_phase_trans:
  assumes "lock_phase fds ts a b" and "lock_phase fds ts' b c"
  shows "lock_phase fds (ts @ ts') a c"
proof -
  from assms(1) obtain cs tos where a: "engine_steps fds (fst a) cs (fst b)" "map fst tos = ts"
    "filter is_placer cs = map (\<lambda>(t, ok). Lock t ok) tos"
    "fst (snd b) = fst (snd a) @ failed tos"
    "snd (snd b) = snd (snd a) @ concat (map call_events cs)"
    unfolding lock_phase_def by blast
  from assms(2) obtain cs' tos' where b: "engine_steps fds (fst b) cs' (fst c)" "map fst tos' = ts'"
    "filter is_placer cs' = map (\<lambda>(t, ok). Lock t ok) tos'"
    "fst (snd c) = fst (snd b) @ failed tos'"
    "snd (snd c) = snd (snd b) @ concat (map call_events cs')"
    unfolding lock_phase_def by blast
  from a b show ?thesis
    unfolding lock_phase_def
    by (intro exI [of _ "cs @ cs'"] exI [of _ "tos @ tos'"])
       (simp add: engine_steps_append failed_append)
qed

lemma lock_phase_ensure:
  "engine_step fds s c s' \<Longrightarrow> \<not> is_placer c \<Longrightarrow> lock_phase fds [] (s, p, lg) (s', p, lg)"
  unfolding lock_phase_def
  by (rule exI [of _ "[c]"], rule exI [of _ "[]"])
     (cases c; simp add: failed_def engine_steps_single)

lemma lock_phase_lock:
  "engine_step fds s (Lock t ok) s' \<Longrightarrow>
     lock_phase fds [t] (s, p, lg) (s', (if \<not> ok then p @ [t] else p), lg @ call_events (Lock t ok))"
  unfolding lock_phase_def
  by (rule exI [of _ "[Lock t ok]"], rule exI [of _ "[(t, ok)]"])
     (simp add: failed_def engine_steps_single)

lemma force_phase_refl: "force_phase fds [] (s, lg) (s, lg)"
  unfolding force_phase_def
  by (rule exI [of _ "[]"], rule exI [of _ "[]"]) (simp add: engine_steps.no_call)

lemma force_phase_trans:
  assumes "force_phase fds ts a b" and "force_phase fds ts' b c"
  shows "force_phase fds (ts @ ts') a c"
proof -
  from assms(1) obtain cs fos where a: "engine_steps fds (fst a) cs (fst b)" "map fst fos = ts"
    "filter is_placer cs = map (\<lambda>(t, ok). Force t ok) fos"
    "snd b = snd a @ concat (map call_events cs)"
    unfolding force_phase_def by blast
  from assms(2) obtain cs' fos' where b: "engine_steps fds (fst b) cs' (fst c)" "map fst fos' = ts'"
    "filter is_placer cs' = map (\<lambda>(t, ok). Force t ok) fos'"
    "snd c = snd b @ concat (map call_events cs')"
    unfolding force_phase_def by blast
  from a b show ?thesis
    unfolding force_phase_def
    by (intro exI [of _ "cs @ cs'"] exI [of _ "fos @ fos'"]) (simp add: engine_steps_append)
qed

lemma force_phase_call:
  "engine_step fds s (EnsureDivision sem div' dshift) s1 \<Longrightarrow> engine_step fds s1 (Force t ok) s' \<Longrightarrow>
     force_phase fds [t] (s, lg) (s', lg @ call_events (Force t ok))"
  unfolding force_phase_def
  by (rule exI [of _ "[EnsureDivision sem div' dshift, Force t ok]"], rule exI [of _ "[(t, ok)]"])
     (auto intro: engine_steps.intros)

text \<open>Writes through the references held by the driver\<close>

lemma dtables_put_put:
  "dtables_put (dtables_put dts sem div' t) sem div' t' = dtables_put dts sem div' t'"
  unfolding dtables_put_def by (induction dts) auto

lemma dtables_put_same:
  "map_of dts (sem, div') = Some e \<Longrightarrow> d_table e = t \<Longrightarrow> dtables_put dts sem div' t = dts"
  unfolding dtables_put_def by (induction dts) (auto split: if_splits)

lemma dtables_put_lookup:
  "map_of dts (sem, div') = Some e0 \<Longrightarrow>
     \<exists>e. map_of (dtables_put dts sem div' t) (sem, div') = Some e \<and> d_table e = t"
  by (simp add: map_of_dtables_put)

lemma theory_attempts_calls:
  assumes "theory_attempts fds fname fshift sem div' dshift sub n (ftbl, dtbl, r, p, lg)
             = (ftbl', dtbl', r', p', lg')"
    and "map_of dts (sem, div') = Some e0"
  shows "lock_phase fds (replicate n (TheoryTask sem div' dshift sub fname fshift))
           ((AList.update fname ftbl fts, dtables_put dts sem div' dtbl), p, lg)
           ((AList.update fname ftbl' fts, dtables_put dts sem div' dtbl'), p', lg')"
  using assms(1)
proof (induction n arbitrary: ftbl dtbl r p lg)
  case 0
  then show ?case by (simp add: lock_phase_refl)
next
  case (Suc n)
  let ?T = "TheoryTask sem div' dshift sub fname fshift"
  obtain ok ft dt r1 where
    l: "lock_theory fds ftbl dtbl fshift dshift fname sem div' sub True r = (ok, ft, dt, r1)"
    by (cases "lock_theory fds ftbl dtbl fshift dshift fname sem div' sub True r") auto
  obtain e where e: "map_of (dtables_put dts sem div' dtbl) (sem, div') = Some e" "d_table e = dtbl"
    using dtables_put_lookup [OF assms(2)] by blast
  have "engine_step fds (AList.update fname ftbl fts, dtables_put dts sem div' dtbl) (Lock ?T ok)
          (AList.update fname ft (AList.update fname ftbl fts),
           dtables_put (dtables_put dts sem div' dtbl) sem div' dt)"
    using e l by (intro lock_theory_call [where ftbl = ftbl and e = e and r = r and r' = r1])
                 (simp_all add: update_conv')
  then have "engine_step fds (AList.update fname ftbl fts, dtables_put dts sem div' dtbl) (Lock ?T ok)
          (AList.update fname ft fts, dtables_put dts sem div' dt)"
    by (simp add: dtables_put_put)
  from lock_phase_lock [OF this, of p lg]
  have a: "lock_phase fds [?T]
          ((AList.update fname ftbl fts, dtables_put dts sem div' dtbl), p, lg)
          ((AList.update fname ft fts, dtables_put dts sem div' dt),
           (if \<not> ok then p @ [?T] else p), lg @ [LockTheory fname ok])"
    by (cases ok) simp_all
  from Suc.prems l have
    "lock_phase fds (replicate n ?T)
       ((AList.update fname ft fts, dtables_put dts sem div' dt),
        (if \<not> ok then p @ [?T] else p), lg @ [LockTheory fname ok])
       ((AList.update fname ftbl' fts, dtables_put dts sem div' dtbl'), p', lg')"
    by (intro Suc.IH [of ft dt r1]) simp
  from lock_phase_trans [OF a this] show ?case by simp
qed

lemma lab_attempts_calls:
  assumes "lab_attempts fds fname fshift sem div' dshift sub batch n (ftbl, dtbl, r, p, lg)
             = (ftbl', dtbl', r', p', lg')"
    and "map_of dts (sem, div') = Some e0"
  shows "lock_phase fds (replicate n (LabTask sem div' dshift sub batch fname fshift))
           ((AList.update fname ftbl fts, dtables_put dts sem div' dtbl), p, lg)
           ((AList.update fname ftbl' fts, dtables_put dts sem div' dtbl'), p', lg')"
  using assms(1)
proof (induction n arbitrary: ftbl dtbl r p lg)
  case 0
  then show ?case by (simp add: lock_phase_refl)
next
  case (Suc n)
  let ?T = "LabTask sem div' dshift sub batch fname fshift"
  obtain ok ft dt r1 where
    l: "lock_lab fds ftbl dtbl fshift dshift fname sem div' sub batch True r = (ok, ft, dt, r1)"
    by (cases "lock_lab fds ftbl dtbl fshift dshift fname sem div' sub batch True r") auto
  obtain e where e: "map_of (dtables_put dts sem div' dtbl) (sem, div') = Some e" "d_table e = dtbl"
    using dtables_put_lookup [OF assms(2)] by blast
  have "engine_step fds (AList.update fname ftbl fts, dtables_put dts sem div' dtbl) (Lock ?T ok)
          (AList.update fname ft (AList.update fname ftbl fts),
           dtables_put (dtables_put dts sem div' dtbl) sem div' dt)"
    using e l by (intro lock_lab_call [where ftbl = ftbl and e = e and r = r and r' = r1])
                 (simp_all add: update_conv')
  then have "engine_step fds (AList.update fname ftbl fts, dtables_put dts sem div' dtbl) (Lock ?T ok)
          (AList.update fname ft fts, dtables_put dts sem div' dt)"
    by (simp add: dtables_put_put)
  from lock_phase_lock [OF this, of p lg]
  have a: "lock_phase fds [?T]
          ((AList.update fname ftbl fts, dtables_put dts sem div' dtbl), p, lg)
          ((AList.update fname ft fts, dtables_put dts sem div' dt),
           (if \<not> ok then p @ [?T] else p), lg @ [LockLab fname ok])"
    by (cases ok) simp_all
  from Suc.prems l have
    "lock_phase fds (replicate n ?T)
       ((AList.update fname ft fts, dtables_put dts sem div' dt),
        (if \<not> ok then p @ [?T] else p), lg @ [LockLab fname ok])
       ((AList.update fname ftbl' fts, dtables_put dts sem div' dtbl'), p', lg')"
    by (intro Suc.IH [of ft dt r1]) simp
  from lock_phase_trans [OF a this] show ?case by simp
qed


lemma lab_batches_calls:
  assumes "foldl (\<lambda>acc batch. lab_attempts fds fname fshift sem div' dshift sub batch n acc)
             (ftbl, dtbl, r, p, lg) batches = (ftbl', dtbl', r', p', lg')"
    and "map_of dts (sem, div') = Some e0"
  shows "lock_phase fds
           (concat (map (\<lambda>batch. replicate n (LabTask sem div' dshift sub batch fname fshift))
                      batches))
           ((AList.update fname ftbl fts, dtables_put dts sem div' dtbl), p, lg)
           ((AList.update fname ftbl' fts, dtables_put dts sem div' dtbl'), p', lg')"
  using assms(1)
proof (induction batches arbitrary: ftbl dtbl r p lg)
  case Nil
  then show ?case by (simp add: lock_phase_refl)
next
  case (Cons b bs)
  obtain ft dt r1 p1 lg1 where
    a: "lab_attempts fds fname fshift sem div' dshift sub b n (ftbl, dtbl, r, p, lg)
          = (ft, dt, r1, p1, lg1)"
    by (metis prod_cases5)
  with Cons.prems have
    "lock_phase fds
       (concat (map (\<lambda>batch. replicate n (LabTask sem div' dshift sub batch fname fshift)) bs))
       ((AList.update fname ft fts, dtables_put dts sem div' dt), p1, lg1)
       ((AList.update fname ftbl' fts, dtables_put dts sem div' dtbl'), p', lg')"
    by (intro Cons.IH [of ft dt r1 p1 lg1]) simp
  from lock_phase_trans [OF lab_attempts_calls [OF a assms(2)] this] show ?case by simp
qed

lemma ensure_division_phase:
  assumes "ensure_div_table fds dts sem div' dshift = (dts1, dtbl, sh')"
  shows "lock_phase fds [] ((fts, dts), p, lg) ((fts, dts1), p, lg)"
    and "dtables_put dts1 sem div' dtbl = dts1"
    and "\<exists>e. map_of dts1 (sem, div') = Some e"
proof -
  have "engine_step fds (fts, dts) (EnsureDivision sem div' dshift)
          (fts, fst (ensure_div_table fds dts sem div' dshift))"
    by (rule ensure_division)
  with assms show "lock_phase fds [] ((fts, dts), p, lg) ((fts, dts1), p, lg)"
    by (intro lock_phase_ensure [where c = "EnsureDivision sem div' dshift"]) simp_all
  from ensure_div_table_props(1) [OF assms] obtain e where
    e: "map_of dts1 (sem, div') = Some e" "d_table e = dtbl" by blast
  then show "dtables_put dts1 sem div' dtbl = dts1" by (rule dtables_put_same)
  from e show "\<exists>e. map_of dts1 (sem, div') = Some e" by blast
qed

lemma lab_entry_calls:
  assumes "lab_entry fds fname fshift entry st = Inr st'"
  shows "lock_phase fds (lab_tasks fname fshift entry)
           ((AList.update fname (a_ftbl st) fts, a_dts st), a_pending st, a_log st)
           ((AList.update fname (a_ftbl st') fts, a_dts st'), a_pending st', a_log st')"
proof -
  let ?sem = "Semester entry" and ?div = "Division entry" and ?sub = "Subject entry"
    and ?dsh = "Div_Shift entry"
  obtain dts1 dtbl sh' where
    en: "ensure_div_table fds (a_dts st) ?sem ?div ?dsh = (dts1, dtbl, sh')"
    by (cases "ensure_div_table fds (a_dts st) ?sem ?div ?dsh") auto
  define batches where
    "batches = (if Batches_Grouped entry then take 1 (Batches entry) else Batches entry)"
  from assms en have ne: "\<not> (Batches_Grouped entry \<and> Batches entry = [])"
    by (auto simp: lab_entry_def Let_def split: list.splits)
  then have bs: "(if \<not> Batches_Grouped entry then Inr (Batches entry)
                  else (case Batches entry of [] \<Rightarrow> Inl IndexError | b # _ \<Rightarrow> Inr [b]))
                 = Inr batches"
    by (cases "Batches entry") (auto simp: batches_def)
  obtain ft dt r1 p1 lg1 where
    f: "foldl (\<lambda>acc batch.
          lab_attempts fds fname fshift ?sem ?div ?dsh ?sub batch (Num_Labs entry) acc)
        (a_ftbl st, dtbl, a_rng st, a_pending st, a_log st) batches = (ft, dt, r1, p1, lg1)"
    by (metis prod_cases5)
  from assms en bs f have st': "st' = \<lparr>a_ftbl = ft, a_dts = dtables_put dts1 ?sem ?div dt,
      a_rng = r1, a_pending = p1, a_log = lg1\<rparr>"
    by (simp add: lab_entry_def Let_def)
  obtain e0 where e0: "map_of dts1 (?sem, ?div) = Some e0"
    using ensure_division_phase(3) [OF en] by blast
  from lab_batches_calls [OF f e0, of fts]
  have "lock_phase fds (lab_tasks fname fshift entry)
          ((AList.update fname (a_ftbl st) fts, dts1), a_pending st, a_log st)
          ((AList.update fname ft fts, dtables_put dts1 ?sem ?div dt), p1, lg1)"
    by (simp add: ensure_division_phase(2) [OF en] lab_tasks_def batches_def)
  from lock_phase_trans [OF ensure_division_phase(1) [OF en] this] st' show ?thesis by simp
qed

lemma lab_entries_calls:
  assumes "lab_entries fds fname fshift entries st = Inr st'"
  shows "lock_phase fds (concat (map (lab_tasks fname fshift) entries))
           ((AList.update fname (a_ftbl st) fts, a_dts st), a_pending st, a_log st)
           ((AList.update fname (a_ftbl st') fts, a_dts st'), a_pending st', a_log st')"
  using assms
proof (induction entries arbitrary: st)
  case Nil
  then show ?case by (simp add: lock_phase_refl)
next
  case (Cons e es)
  then obtain st1 where a: "lab_entry fds fname fshift e st = Inr st1"
    and b: "lab_entries fds fname fshift es st1 = Inr st'"
    by (auto split: sum.splits)
  from lock_phase_trans [OF lab_entry_calls [OF a] Cons.IH [OF b]] show ?case by simp
qed

lemma theory_entry_calls:
  "lock_phase fds (theory_tasks fname fshift entry)
     ((AList.update fname (a_ftbl st) fts, a_dts st), a_pending st, a_log st)
     ((AList.update fname (a_ftbl (theory_entry fds fname fshift st entry)) fts,
       a_dts (theory_entry fds fname fshift st entry)),
      a_pending (theory_entry fds fname fshift st entry),
      a_log (theory_entry fds fname fshift st entry))"
proof -
  let ?sem = "Semester entry" and ?div = "Division entry" and ?sub = "Subject entry"
    and ?dsh = "Div_Shift entry"
  obtain dts1 dtbl sh' where
    en: "ensure_div_table fds (a_dts st) ?sem ?div ?dsh = (dts1, dtbl, sh')"
    by (cases "ensure_div_table fds (a_dts st) ?sem ?div ?dsh") auto
  obtain ft dt r1 p1 lg1 where
    f: "theory_attempts fds fname fshift ?sem ?div ?dsh ?sub (Theory_Classes entry)
          (a_ftbl st, dtbl, a_rng st, a_pending st, a_log st) = (ft, dt, r1, p1, lg1)"
    by (metis prod_cases5)
  from en f have st': "theory_entry fds fname fshift st entry =
      \<lparr>a_ftbl = ft, a_dts = dtables_put dts1 ?sem ?div dt,
       a_rng = r1, a_pending = p1, a_log = lg1\<rparr>"
    by (simp add: theory_entry_def Let_def)
  obtain e0 where e0: "map_of dts1 (?sem, ?div) = Some e0"
    using ensure_division_phase(3) [OF en] by blast
  from theory_attempts_calls [OF f e0, of fts]
  have "lock_phase fds (theory_tasks fname fshift entry)
          ((AList.update fname (a_ftbl st) fts, dts1), a_pending st, a_log st)
          ((AList.update fname ft fts, dtables_put dts1 ?sem ?div dt), p1, lg1)"
    by (simp add: ensure_division_phase(2) [OF en] theory_tasks_def)
  from lock_phase_trans [OF ensure_division_phase(1) [OF en] this] st' show ?thesis by simp
qed

lemma theory_entries_calls:
  "lock_phase fds (concat (map (theory_tasks fname fshift) entries))
     ((AList.update fname (a_ftbl st) fts, a_dts st), a_pending st, a_log st)
     ((AList.update fname (a_ftbl (foldl (theory_entry fds fname fshift) st entries)) fts,
       a_dts (foldl (theory_entry fds fname fshift) st entries)),
      a_pending (foldl (theory_entry fds fname fshift) st entries),
      a_log (foldl (theory_entry fds fname fshift) st entries))"
proof (induction entries arbitrary: st)
  case Nil
  then show ?case by (simp add: lock_phase_refl)
next
  case (Cons e es)
  from lock_phase_trans [OF theory_entry_calls [of fds fname fshift e st fts]
      Cons.IH [of "theory_entry fds fname fshift st e"]]
  show ?case by simp
qed

lemma force_task_calls:
  assumes "task_faculty t = fname"
  shows "force_phase fds [t]
     ((AList.update fname (a_ftbl st) fts, a_dts st), a_log st)
     ((AList.update fname (a_ftbl (force_task fds fname st t)) fts,
       a_dts (force_task fds fname st t)),
      a_log (force_task fds fname st t))"
proof (cases t)
  case (TheoryTask sem div' dshift sub faculty fshift)
  with assms have fn: "faculty = fname" by simp
  obtain dts1 dtbl sh' where
    en: "ensure_div_table fds (a_dts st) sem div' dshift = (dts1, dtbl, sh')"
    by (cases "ensure_div_table fds (a_dts st) sem div' dshift") auto
  obtain ok ft dt where
    c: "force_place_theory fds (a_ftbl st) dtbl fshift dshift fname sem div' sub = (ok, ft, dt)"
    by (cases "force_place_theory fds (a_ftbl st) dtbl fshift dshift fname sem div' sub") auto
  from ensure_div_table_props(1) [OF en] obtain e where
    e: "map_of dts1 (sem, div') = Some e" "d_table e = dtbl" by blast
  have s1: "engine_step fds (AList.update fname (a_ftbl st) fts, a_dts st)
              (EnsureDivision sem div' dshift) (AList.update fname (a_ftbl st) fts, dts1)"
    using ensure_division [of fds "AList.update fname (a_ftbl st) fts" "a_dts st" sem div' dshift] en
    by simp
  have "engine_step fds (AList.update fname (a_ftbl st) fts, dts1) (Force t ok)
          (AList.update fname ft (AList.update fname (a_ftbl st) fts),
           dtables_put dts1 sem div' dt)"
    unfolding TheoryTask fn using e c
    by (intro force_theory_call [where ftbl = "a_ftbl st" and e = e]) (simp_all add: update_conv')
  then have s2: "engine_step fds (AList.update fname (a_ftbl st) fts, dts1) (Force t ok)
          (AList.update fname ft fts, dtables_put dts1 sem div' dt)"
    by simp
  from force_phase_call [OF s1 s2, of "a_log st"] TheoryTask fn en c show ?thesis by simp
next
  case (LabTask sem div' dshift sub batch faculty fshift)
  with assms have fn: "faculty = fname" by simp
  obtain dts1 dtbl sh' where
    en: "ensure_div_table fds (a_dts st) sem div' dshift = (dts1, dtbl, sh')"
    by (cases "ensure_div_table fds (a_dts st) sem div' dshift") auto
  obtain ok ft dt where
    c: "force_place_lab fds (a_ftbl st) dtbl fshift dshift fname sem div' sub batch = (ok, ft, dt)"
    by (cases "force_place_lab fds (a_ftbl st) dtbl fshift dshift fname sem div' sub batch") auto
  from ensure_div_table_props(1) [OF en] obtain e where
    e: "map_of dts1 (sem, div') = Some e" "d_table e = dtbl" by blast
  have s1: "engine_step fds (AList.update fname (a_ftbl st) fts, a_dts st)
              (EnsureDivision sem div' dshift) (AList.update fname (a_ftbl st) fts, dts1)"
    using ensure_division [of fds "AList.update fname (a_ftbl st) fts" "a_dts st" sem div' dshift] en
    by simp
  have "engine_step fds (AList.update fname (a_ftbl st) fts, dts1) (Force t ok)
          (AList.update fname ft (AList.update fname (a_ftbl st) fts),
           dtables_put dts1 sem div' dt)"
    unfolding LabTask fn using e c
    by (intro force_lab_call [where ftbl = "a_ftbl st" and e = e]) (simp_all add: update_conv')
  then have s2: "engine_step fds (AList.update fname (a_ftbl st) fts, dts1) (Force t ok)
          (AList.update fname ft fts, dtables_put dts1 sem div' dt)"
    by simp
  from force_phase_call [OF s1 s2, of "a_log st"] LabTask fn en c show ?thesis by simp
qed

lemma force_tasks_calls:
  assumes "\<forall>t \<in> set tasks. task_faculty t = fname"
  shows "force_phase fds tasks
     ((AList.update fname (a_ftbl st) fts, a_dts st), a_log st)
     ((AList.update fname (a_ftbl (foldl (force_task fds fname) st tasks)) fts,
       a_dts (foldl (force_task fds fname) st tasks)),
      a_log (foldl (force_task fds fname) st tasks))"
  using assms
proof (induction tasks arbitrary: st)
  case Nil
  then show ?case by (simp add: force_phase_refl)
next
  case (Cons t ts)
  then have a: "task_faculty t = fname" and b: "\<forall>t \<in> set ts. task_faculty t = fname" by simp_all
  from force_phase_trans [OF force_task_calls [OF a, of fds st fts]
      Cons.IH [OF b, of "force_task fds fname st t"]]
  show ?case by simp
qed

lemma lock_tasks_fields:
  "t \<in> set (lock_tasks f) \<Longrightarrow> task_faculty t = Name f \<and> task_fshift t = Shift f"
  by (auto simp: lock_tasks_def lab_tasks_def theory_tasks_def split: if_splits)

lemma failed_subset: "set (failed tos) \<subseteq> set (map fst tos)"
  by (auto simp: failed_def)


lemma assign_calls:
  assumes "assign_subjects_for_faculty fds f st = Inr st'"
  shows "\<exists>cs. engine_steps fds (e_ftables st, e_dtables st) cs (e_ftables st', e_dtables st') \<and>
              faculty_calls f cs \<and> e_log st' = e_log st @ concat (map call_events cs)"
proof -
  let ?fname = "Name f" and ?fshift = "Shift f"
  define fts where "fts = (if map_of (e_ftables st) ?fname = None
     then AList.update ?fname (empty_table_for_shift ?fshift) (e_ftables st) else e_ftables st)"
  define ftbl where "ftbl = (case map_of (e_ftables st) ?fname of Some t \<Rightarrow> t
     | None \<Rightarrow> empty_table_for_shift ?fshift)"
  have c: "(case map_of (e_ftables st) ?fname of
        Some t \<Rightarrow> (e_ftables st, t)
      | None \<Rightarrow> (AList.update ?fname (empty_table_for_shift ?fshift) (e_ftables st),
                 empty_table_for_shift ?fshift)) = (fts, ftbl)"
    by (simp add: fts_def ftbl_def split: option.splits)
  have u: "AList.update ?fname ftbl fts = fts"
    by (auto simp: fts_def ftbl_def update_triv split: option.splits)
  define st0 where "st0 = \<lparr>a_ftbl = ftbl, a_dts = e_dtables st, a_rng = e_rng st,
     a_pending = [], a_log = e_log st\<rparr>"
  obtain st1 where
    l: "lab_entries fds ?fname ?fshift (filter (\<lambda>s. Type s = LabT) (Subjects f)) st0 = Inr st1"
    using assms c
    by (auto simp: assign_subjects_for_faculty_def Let_def st0_def split: sum.splits)
  define st2 where "st2 = foldl (theory_entry fds ?fname ?fshift) st1
                 (filter (\<lambda>s. Type s = TheoryT) (Subjects f))"
  define st3 where "st3 = foldl (force_task fds ?fname) st2 (a_pending st2)"
  have r: "e_ftables st' = AList.update ?fname (a_ftbl st3) fts" "e_dtables st' = a_dts st3"
    "e_log st' = a_log st3"
    using assms c l
    by (auto simp: assign_subjects_for_faculty_def Let_def st0_def st2_def st3_def)
  have s0: "engine_step fds (e_ftables st, e_dtables st) (EnsureFaculty ?fname ?fshift)
              (fts, e_dtables st)"
    unfolding fts_def by (rule ensure_faculty)
  have "lock_phase fds (lock_tasks f)
          ((AList.update ?fname (a_ftbl st0) fts, a_dts st0), a_pending st0, a_log st0)
          ((AList.update ?fname (a_ftbl st2) fts, a_dts st2), a_pending st2, a_log st2)"
    unfolding lock_tasks_def st2_def
    by (rule lock_phase_trans [OF lab_entries_calls [OF l] theory_entries_calls])
  then obtain cs tos where k: "engine_steps fds (fts, e_dtables st) cs
        (AList.update ?fname (a_ftbl st2) fts, a_dts st2)"
    "map fst tos = lock_tasks f" "filter is_placer cs = map (\<lambda>(t, ok). Lock t ok) tos"
    "a_pending st2 = failed tos" "a_log st2 = e_log st @ concat (map call_events cs)"
    unfolding lock_phase_def by (auto simp: st0_def u)
  have "\<forall>t \<in> set (a_pending st2). task_faculty t = ?fname"
    using failed_subset [of tos] k(2,4) lock_tasks_fields [of _ f] by auto
  from force_tasks_calls [OF this, of fds st2 fts]
  obtain cs' fos where m: "engine_steps fds (AList.update ?fname (a_ftbl st2) fts, a_dts st2) cs'
        (AList.update ?fname (a_ftbl st3) fts, a_dts st3)"
    "map fst fos = a_pending st2" "filter is_placer cs' = map (\<lambda>(t, ok). Force t ok) fos"
    "a_log st3 = a_log st2 @ concat (map call_events cs')"
    unfolding force_phase_def st3_def by auto
  let ?cs = "EnsureFaculty ?fname ?fshift # cs @ cs'"
  have "engine_steps fds (e_ftables st, e_dtables st) ?cs (e_ftables st', e_dtables st')"
    unfolding r using s0 engine_steps_append [OF k(1) m(1)] by (rule one_more)
  moreover have "faculty_calls f ?cs"
    unfolding faculty_calls_def using k(2,3,4) m(2,3)
    by (intro exI [of _ tos] exI [of _ fos]) simp
  moreover have "e_log st' = e_log st @ concat (map call_events ?cs)"
    using r(3) k(5) m(4) by simp
  ultimately show ?thesis by blast
qed

lemma assign_all_calls:
  "assign_all fds faculties st = Inr st' \<Longrightarrow>
     \<exists>css. engine_steps fds (e_ftables st, e_dtables st) (concat css)
             (e_ftables st', e_dtables st') \<and>
           list_all2 faculty_calls faculties css \<and>
           e_log st' = e_log st @ concat (map call_events (concat css))"
proof (induction faculties arbitrary: st)
  case Nil
  then show ?case by (auto intro: no_call)
next
  case (Cons f fs)
  then obtain st1 where a: "assign_subjects_for_faculty fds f st = Inr st1"
    and b: "assign_all fds fs st1 = Inr st'"
    by (auto split: sum.splits)
  from assign_calls [OF a] obtain cs where
    c: "engine_steps fds (e_ftables st, e_dtables st) cs (e_ftables st1, e_dtables st1)"
    "faculty_calls f cs" "e_log st1 = e_log st @ concat (map call_events cs)" by blast
  from Cons.IH [OF b] obtain css where
    d: "engine_steps fds (e_ftables st1, e_dtables st1) (concat css) (e_ftables st', e_dtables st')"
    "list_all2 faculty_calls fs css"
    "e_log st' = e_log st1 @ concat (map call_events (concat css))" by blast
  from c d engine_steps_append [OF c(1) d(1)] show ?case
    by (intro exI [of _ "cs # css"]) simp
qed

text \<open>
  C1, as the code has it. The pending list is local to one call of
  \<open>assign_subjects_for_faculty\<close>. A run is a sequence of calls on the pre-marked stores,
  faculty by faculty in input order, and the log holds the records of its placer calls in
  that order. The placer calls of one faculty are its lock calls, for the Lab obligations
  and then for the Theory obligations, followed by one force call for each lock call that
  failed, for the same task and in the same order: \<open>force_place_lab\<close> for a Lab task,
  \<open>force_place_theory\<close> for a Theory task. A faculty's pending tasks are therefore
  force-placed after its own lock passes and before the next faculty's lock passes begin.
\<close>

theorem pending_drained_per_faculty:
  "main_run seeded fds faculties = Inr st \<Longrightarrow>
     \<exists>css. engine_steps fds ([], apply_free_day_markings_from_inputs fds [] faculties)
             (concat css) (e_ftables st, e_dtables st) \<and>
           list_all2 faculty_calls faculties css \<and>
           e_log st = concat (map call_events (concat css))"
  unfolding main_run_def by (drule assign_all_calls) simp

subsection \<open>The driver returns\<close>

lemma lab_entry_total:
  "\<not> (Batches_Grouped entry \<and> Batches entry = []) \<Longrightarrow>
     \<exists>st'. lab_entry fds fname fshift entry st = Inr st'"
  unfolding lab_entry_def Let_def
  by (auto split: prod.splits list.splits)

lemma lab_entries_total:
  "\<forall>s \<in> set entries. \<not> (Batches_Grouped s \<and> Batches s = []) \<Longrightarrow>
     \<exists>st'. lab_entries fds fname fshift entries st = Inr st'"
proof (induction entries arbitrary: st)
  case Nil
  then show ?case by simp
next
  case (Cons e es)
  then obtain st1 where "lab_entry fds fname fshift e st = Inr st1"
    using lab_entry_total [of e fds fname fshift st] by auto
  with Cons show ?case by simp
qed

lemma assign_total:
  "\<forall>s \<in> set (Subjects f). Type s = LabT \<longrightarrow> \<not> (Batches_Grouped s \<and> Batches s = []) \<Longrightarrow>
     \<exists>st'. assign_subjects_for_faculty fds f st = Inr st'"
proof -
  assume a: "\<forall>s \<in> set (Subjects f). Type s = LabT \<longrightarrow> \<not> (Batches_Grouped s \<and> Batches s = [])"
  have "\<exists>st'. lab_entries fds (Name f) (Shift f) (filter (\<lambda>s. Type s = LabT) (Subjects f)) st0
          = Inr st'" for st0
    using a by (intro lab_entries_total) auto
  then show ?thesis
    unfolding assign_subjects_for_faculty_def Let_def
    by (auto split: prod.splits sum.splits) (metis Inl_Inr_False)
qed

lemma assign_all_total:
  "\<forall>f \<in> set faculties. \<forall>s \<in> set (Subjects f).
      Type s = LabT \<longrightarrow> \<not> (Batches_Grouped s \<and> Batches s = []) \<Longrightarrow>
     \<exists>st'. assign_all fds faculties st = Inr st'"
proof (induction faculties arbitrary: st)
  case Nil
  then show ?case by simp
next
  case (Cons f fs)
  then obtain st1 where "assign_subjects_for_faculty fds f st = Inr st1"
    using assign_total [of f fds st] by auto
  with Cons show ?case by simp
qed

lemma plan_two_no_grouped:
  "\<forall>f \<in> set plan_two. \<forall>s \<in> set (Subjects f).
      Type s = LabT \<longrightarrow> \<not> (Batches_Grouped s \<and> Batches s = [])"
  by (simp add: plan_two_def faculty_of_def theory_of_def)

theorem pending_drained_per_faculty_witness:
  "\<exists>st. main_run (\<lambda>n. in_order) all_week_free plan_two = Inr st \<and>
        (\<exists>css. engine_steps all_week_free
                 ([], apply_free_day_markings_from_inputs all_week_free [] plan_two)
                 (concat css) (e_ftables st, e_dtables st) \<and>
               list_all2 faculty_calls plan_two css \<and>
               e_log st = concat (map call_events (concat css)))"
proof -
  obtain st where r: "main_run (\<lambda>n. in_order) all_week_free plan_two = Inr st"
    unfolding main_run_def using assign_all_total [OF plan_two_no_grouped] by blast
  from pending_drained_per_faculty [OF r] r show ?thesis by blast
qed

subsection \<open>A run in which every lock call fails\<close>

lemma premarked_no_free:
  "s \<in> set (SHIFT_SLOTS sh) \<Longrightarrow>
     \<not> free_slot (mark_whole_days (mark_holidays (empty_table_for_shift sh) sh sem div' DAYS)
                    sem2 div2 days) d s"
  using placed_text_not_blank(2) marked_all_week_no_free [of s sh sem div' d]
  by (simp add: free_slot_strip mark_whole_days_cell)

lemma normalize_A: "normalize_token ''A'' = ''A''"
  by code_simp

lemma premark_all_week_free:
  "apply_free_day_markings_from_inputs all_week_free [] plan_two =
     [((''3'', ''A''),
       \<lparr>d_shift = S8_3,
        d_table = mark_whole_days
                    (mark_holidays (empty_table_for_shift S8_3) S8_3 ''3'' ''A'' DAYS)
                    ''3'' ''A'' DAYS\<rparr>)]"
  by (simp add: apply_free_day_markings_from_inputs_def all_week_free_def plan_two_def
        faculty_of_def theory_of_def div_shift_map_def ensure_div_table_def fds_get_def
        normalize_A dtables_put_def Let_def)

lemma all_fail_log:
  "\<exists>st. main_run seeded all_week_free plan_two = Inr st \<and>
     e_log st = [LockTheory ''F1'' False, ForceTheory ''F1'' False,
                 LockTheory ''F2'' False, ForceTheory ''F2'' False]"
proof -
  define T where "T = mark_whole_days
                    (mark_holidays (empty_table_for_shift S8_3) S8_3 ''3'' ''A'' DAYS)
                    ''3'' ''A'' DAYS"
  have nf: "\<forall>d. \<forall>s \<in> set (SHIFT_SLOTS S8_3). \<not> free_slot T d s"
    unfolding T_def using premarked_no_free by blast
  have lt: "lock_theory fds ftbl T S8_3 S8_3 fname ''3'' ''A'' sub True r =
              (False, ftbl, T, snd (sample (snd (sample r))))" for fds ftbl fname sub r
    using nf by (intro lock_theory_fails) blast
  have ft: "force_place_theory fds ftbl T S8_3 S8_3 fname ''3'' ''A'' sub = (False, ftbl, T)"
    for fds ftbl fname sub
    using nf by (intro force_place_theory_fails) blast
  have pm: "apply_free_day_markings_from_inputs all_week_free [] plan_two =
     [((''3'', ''A''), \<lparr>d_shift = S8_3, d_table = T\<rparr>)]"
    unfolding T_def by (rule premark_all_week_free)
  show ?thesis
    unfolding main_run_def pm
    by (simp add: plan_two_def faculty_of_def theory_of_def assign_subjects_for_faculty_def
          theory_entry_def ensure_div_table_def dtables_put_def lt ft Let_def)
qed

text \<open>
  C1, as stated, fails: with two faculties whose lock calls fail, the force call of the
  first faculty is logged before the lock call of the second.
\<close>

theorem force_before_next_lock_counterexample:
  "\<exists>st. main_run (\<lambda>n. in_order) all_week_free plan_two = Inr st \<and>
        \<not> locks_before_forces (e_log st)"
proof -
  obtain st where "main_run (\<lambda>n. in_order) all_week_free plan_two = Inr st"
    "e_log st = [LockTheory ''F1'' False, ForceTheory ''F1'' False,
                 LockTheory ''F2'' False, ForceTheory ''F2'' False]"
    using all_fail_log by blast
  then show ?thesis by (auto simp: locks_before_forces_def)
qed

subsection \<open>Cell monotonicity of the placers\<close>

lemma tbl_step_refl: "tbl_step t t"
  by (simp add: tbl_step_def tbl_preserved_def)

lemma tbl_step_trans: "tbl_step t t' \<Longrightarrow> tbl_step t' t'' \<Longrightarrow> tbl_step t t''"
  unfolding tbl_step_def tbl_preserved_def
  by (intro impI conjI allI) auto

lemma clean_free_empty: "tbl_clean t \<Longrightarrow> free_slot t d s \<Longrightarrow> cell_get t d s = []"
  by (auto simp: tbl_clean_def free_slot_strip)

lemma cell_set_step:
  assumes "free_slot t d s" and "strip v \<noteq> []"
  shows "tbl_step t (cell_set t d s v)"
  unfolding tbl_step_def
proof (intro impI conjI)
  assume c: "tbl_clean t"
  with assms(1) have e: "cell_get t d s = []" by (simp add: clean_free_empty)
  then show "tbl_preserved t (cell_set t d s v)"
    by (auto simp: tbl_preserved_def cell_get_cell_set)
  from c assms(2) show "tbl_clean (cell_set t d s v)"
    by (auto simp: tbl_clean_def cell_get_cell_set)
qed

lemma cell_set_pair_step:
  assumes "free_slot t d s1" and "free_slot t d s2" and "strip v1 \<noteq> []" and "strip v2 \<noteq> []"
  shows "tbl_step t (cell_set (cell_set t d s1 v1) d s2 v2)"
  unfolding tbl_step_def
proof (intro impI conjI)
  assume c: "tbl_clean t"
  with assms(1,2) have e: "cell_get t d s1 = []" "cell_get t d s2 = []"
    by (auto dest: clean_free_empty)
  then show "tbl_preserved t (cell_set (cell_set t d s1 v1) d s2 v2)"
    by (auto simp: tbl_preserved_def cell_get_cell_set)
  from c assms(3,4) show "tbl_clean (cell_set (cell_set t d s1 v1) d s2 v2)"
    by (auto simp: tbl_clean_def cell_get_cell_set)
qed

lemma write_theory_step:
  assumes "theory_place_ok ftbl dtbl fshift dshift p"
    and "write_theory ftbl dtbl fname sem div' sub p = (ftbl', dtbl')"
  shows "tbl_step ftbl ftbl' \<and> tbl_step dtbl dtbl'"
proof -
  obtain fday fs dday ds where p: "p = (fday, fs, dday, ds)" by (cases p) auto
  with assms show ?thesis
    using placed_text_not_blank(3) [of sub sem div'] placed_text_not_blank(4) [of sub fname]
    by (auto simp: theory_place_ok_def write_theory_def intro!: cell_set_step)
qed

lemma write_lab_step:
  assumes "lab_place_ok ftbl dtbl fshift dshift p"
    and "write_lab ftbl dtbl fname sem div' sub b p = (ftbl', dtbl')"
  shows "tbl_step ftbl ftbl' \<and> tbl_step dtbl dtbl'"
proof -
  obtain fday fs1 fs2 dday ds1 ds2 where p: "p = (fday, (fs1, fs2), dday, (ds1, ds2))"
    by (cases p) auto
  with assms show ?thesis
    using placed_text_not_blank(1) placed_text_not_blank(5) [of sub sem div' b]
      placed_text_not_blank(6) [of sub fname b]
    by (auto simp: lab_place_ok_def write_lab_def free_pair_def intro!: cell_set_pair_step)
qed

lemma lock_theory_step:
  "lock_theory fds ftbl dtbl fshift dshift fname sem div' sub avoid_dup r = (ok, ftbl', dtbl', r')
   \<Longrightarrow> tbl_step ftbl ftbl' \<and> tbl_step dtbl dtbl'"
  by (drule lock_theory_cases) (auto simp: tbl_step_refl dest: write_theory_step)

lemma lock_lab_step:
  "lock_lab fds ftbl dtbl fshift dshift fname sem div' sub b avoid_dup r = (ok, ftbl', dtbl', r')
   \<Longrightarrow> tbl_step ftbl ftbl' \<and> tbl_step dtbl dtbl'"
  by (drule lock_lab_cases) (auto simp: tbl_step_refl dest: write_lab_step)

lemma force_place_theory_step:
  "force_place_theory fds ftbl dtbl fshift dshift fname sem div' sub = (ok, ftbl', dtbl')
   \<Longrightarrow> tbl_step ftbl ftbl' \<and> tbl_step dtbl dtbl'"
  by (drule force_place_theory_cases) (auto simp: tbl_step_refl dest: write_theory_step)

lemma force_place_lab_step:
  "force_place_lab fds ftbl dtbl fshift dshift fname sem div' sub b = (ok, ftbl', dtbl')
   \<Longrightarrow> tbl_step ftbl ftbl' \<and> tbl_step dtbl dtbl'"
  by (drule force_place_lab_cases) (auto simp: tbl_step_refl dest: write_lab_step)

subsection \<open>Cell monotonicity of the stores\<close>

text \<open>Created grids are clean, and so are pre-marked ones.\<close>

lemma empty_table_clean: "tbl_clean (empty_table_for_shift sh)"
  by (auto simp: tbl_clean_def cell_get_empty_table_for_shift dest: inert_not_blank)

lemma mark_holidays_clean: "tbl_clean t \<Longrightarrow> tbl_clean (mark_holidays t sh sem div' hs)"
  using placed_text_not_blank(2) [of sem div']
  by (auto simp: tbl_clean_def cell_get_mark_holidays)

lemma fresh_div_table_clean: "tbl_clean (fresh_div_table fds k sh)"
  by (simp add: fresh_div_table_def mark_holidays_clean empty_table_clean)

lemma mark_whole_days_clean: "tbl_clean t \<Longrightarrow> tbl_clean (mark_whole_days t sem div' days)"
  using placed_text_not_blank(2) [of sem div']
  by (auto simp: tbl_clean_def mark_whole_days_cell)

lemma premark_step_clean:
  assumes "\<forall>k e. map_of dts k = Some e \<longrightarrow> tbl_clean (d_table e)"
    and "ensure_div_table fds dts sem div' sh = (dts', dtbl, sh')"
  shows "\<forall>k e. map_of (dtables_put dts' sem div' (mark_whole_days dtbl sem div' days)) k = Some e
           \<longrightarrow> tbl_clean (d_table e)"
proof (intro allI impI)
  fix k e
  assume m: "map_of (dtables_put dts' sem div' (mark_whole_days dtbl sem div' days)) k = Some e"
  have cd: "tbl_clean dtbl"
  proof (cases "map_of dts (sem, div')")
    case None
    from ensure_div_table_props(4) [OF assms(2) None] show ?thesis
      by (simp add: mark_holidays_clean empty_table_clean)
  next
    case (Some e0)
    from ensure_div_table_props(3) [OF assms(2) Some] have "dtbl = d_table e0" by simp
    with assms(1) Some show ?thesis by blast
  qed
  show "tbl_clean (d_table e)"
  proof (cases "k = (sem, div')")
    case True
    with m cd show ?thesis
      by (auto simp: map_of_dtables_put mark_whole_days_clean)
  next
    case False
    with m ensure_div_table_props(2) [OF assms(2), of k] have "map_of dts k = Some e"
      by (simp add: map_of_dtables_put)
    with assms(1) show ?thesis by blast
  qed
qed

lemma premark_clean:
  "\<forall>k e. map_of dts k = Some e \<longrightarrow> tbl_clean (d_table e) \<Longrightarrow>
     \<forall>k e. map_of (apply_free_day_markings_from_inputs fds dts faculties) k = Some e
       \<longrightarrow> tbl_clean (d_table e)"
proof -
  assume a: "\<forall>k e. map_of dts k = Some e \<longrightarrow> tbl_clean (d_table e)"
  have "\<forall>k e. map_of (foldl (\<lambda>dts ((sem, div'), days).
                 (let div_shift = (case map_of m (sem, div') of None \<Rightarrow> S8_3 | Some sh \<Rightarrow> sh)
                  in case ensure_div_table fds dts sem div' div_shift of (dts', dtbl, _) \<Rightarrow>
                       dtables_put dts' sem div' (mark_whole_days dtbl sem div' days)))
               dts xs) k = Some e \<longrightarrow> tbl_clean (d_table e)" for m xs
  proof (induction xs rule: rev_induct)
    case Nil
    with a show ?case by simp
  next
    case (snoc x xs)
    obtain sem div' days where x: "x = ((sem, div'), days)" by (cases x) auto
    let ?dts = "foldl (\<lambda>dts ((sem, div'), days).
                 (let div_shift = (case map_of m (sem, div') of None \<Rightarrow> S8_3 | Some sh \<Rightarrow> sh)
                  in case ensure_div_table fds dts sem div' div_shift of (dts', dtbl, _) \<Rightarrow>
                       dtables_put dts' sem div' (mark_whole_days dtbl sem div' days)))
               dts xs"
    let ?sh = "case map_of m (sem, div') of None \<Rightarrow> S8_3 | Some sh \<Rightarrow> sh"
    obtain dts' dtbl sh' where en: "ensure_div_table fds ?dts sem div' ?sh = (dts', dtbl, sh')"
      by (cases "ensure_div_table fds ?dts sem div' ?sh") auto
    from premark_step_clean [OF snoc.IH en, of days] x en show ?case by simp
  qed
  then show ?thesis by (simp add: apply_free_day_markings_from_inputs_def)
qed

lemma tbl_preserved_refl: "tbl_preserved t t"
  by (simp add: tbl_preserved_def)

lemma tbl_preserved_trans: "tbl_preserved t t' \<Longrightarrow> tbl_preserved t' t'' \<Longrightarrow> tbl_preserved t t''"
  unfolding tbl_preserved_def by metis

lemma cells_kept_refl: "cells_kept s s"
  by (simp add: cells_kept_def tbl_preserved_refl)

lemma cells_kept_trans:
  assumes "cells_kept s s'" and "cells_kept s' s''"
  shows "cells_kept s s''"
  unfolding cells_kept_def
proof (intro conjI allI impI)
  fix k t
  assume "map_of (fst s) k = Some t"
  with assms(1) obtain t' where a: "map_of (fst s') k = Some t'" "tbl_preserved t t'"
    unfolding cells_kept_def by blast
  with assms(2) obtain t'' where "map_of (fst s'') k = Some t''" "tbl_preserved t' t''"
    unfolding cells_kept_def by blast
  with a show "\<exists>t'. map_of (fst s'') k = Some t' \<and> tbl_preserved t t'"
    by (blast intro: tbl_preserved_trans)
next
  fix k e
  assume "map_of (snd s) k = Some e"
  with assms(1) obtain e' where a: "map_of (snd s') k = Some e'" "d_shift e' = d_shift e"
    "tbl_preserved (d_table e) (d_table e')"
    unfolding cells_kept_def by blast
  with assms(2) obtain e'' where "map_of (snd s'') k = Some e''" "d_shift e'' = d_shift e'"
    "tbl_preserved (d_table e') (d_table e'')"
    unfolding cells_kept_def by blast
  with a show "\<exists>e'. map_of (snd s'') k = Some e' \<and> d_shift e' = d_shift e \<and>
                    tbl_preserved (d_table e) (d_table e')"
    by (auto intro: tbl_preserved_trans)
qed

lemma placer_write_kept:
  assumes cl: "grids_clean (fts, dts)"
    and f: "map_of fts fname = Some ftbl" and d: "map_of dts (sem, div') = Some e"
    and st: "tbl_step ftbl ftbl' \<and> tbl_step (d_table e) dtbl'"
  shows "cells_kept (fts, dts) (AList.update fname ftbl' fts, dtables_put dts sem div' dtbl') \<and>
         grids_clean (AList.update fname ftbl' fts, dtables_put dts sem div' dtbl')"
proof -
  from cl f d have "tbl_clean ftbl" "tbl_clean (d_table e)"
    unfolding grids_clean_def by auto
  with st have p: "tbl_preserved ftbl ftbl'" "tbl_clean ftbl'"
    "tbl_preserved (d_table e) dtbl'" "tbl_clean dtbl'"
    by (auto simp: tbl_step_def)
  have "cells_kept (fts, dts) (AList.update fname ftbl' fts, dtables_put dts sem div' dtbl')"
    unfolding cells_kept_def
  proof (intro conjI allI impI)
    fix k t
    assume "map_of (fst (fts, dts)) k = Some t"
    with f p(1) show "\<exists>t'. map_of (fst (AList.update fname ftbl' fts,
        dtables_put dts sem div' dtbl')) k = Some t' \<and> tbl_preserved t t'"
      by (cases "k = fname") (auto simp: update_conv' tbl_preserved_refl)
  next
    fix k e1
    assume "map_of (snd (fts, dts)) k = Some e1"
    with d p(3) show "\<exists>e'. map_of (snd (AList.update fname ftbl' fts,
        dtables_put dts sem div' dtbl')) k = Some e' \<and> d_shift e' = d_shift e1 \<and>
        tbl_preserved (d_table e1) (d_table e')"
      by (cases "k = (sem, div')") (auto simp: map_of_dtables_put tbl_preserved_refl)
  qed
  moreover have "grids_clean (AList.update fname ftbl' fts, dtables_put dts sem div' dtbl')"
    unfolding grids_clean_def
  proof (intro conjI allI impI)
    fix k t
    assume "map_of (fst (AList.update fname ftbl' fts, dtables_put dts sem div' dtbl')) k = Some t"
    with cl p(2) show "tbl_clean t"
      unfolding grids_clean_def by (cases "k = fname") (auto simp: update_conv')
  next
    fix k e1
    assume "map_of (snd (AList.update fname ftbl' fts, dtables_put dts sem div' dtbl')) k = Some e1"
    with cl p(4) show "tbl_clean (d_table e1)"
      unfolding grids_clean_def
      by (cases k; cases "k = (sem, div')") (auto simp: map_of_dtables_put)
  qed
  ultimately show ?thesis by simp
qed

lemma step_kept:
  assumes "engine_step fds s c s'" and "grids_clean s"
  shows "cells_kept s s' \<and> grids_clean s'"
  using assms
proof (cases rule: engine_step.cases)
  case (ensure_faculty fts fname fshift dts)
  with assms(2) show ?thesis
    by (auto simp: cells_kept_def grids_clean_def update_conv' tbl_preserved_refl
          empty_table_clean split: if_splits)
next
  case (ensure_division fts dts sem div' dshift)
  obtain dts1 dtbl sh' where
    en: "ensure_div_table fds dts sem div' dshift = (dts1, dtbl, sh')"
    by (cases "ensure_div_table fds dts sem div' dshift") auto
  have k: "cells_kept (fts, dts) (fts, dts1)"
    unfolding cells_kept_def
  proof (intro conjI allI impI)
    fix k e
    assume "map_of (snd (fts, dts)) k = Some e"
    then show "\<exists>e'. map_of (snd (fts, dts1)) k = Some e' \<and> d_shift e' = d_shift e \<and>
                 tbl_preserved (d_table e) (d_table e')"
      using ensure_div_table_props(2) [OF en, of k] ensure_div_table_props(3) [OF en, of e]
      by (cases "k = (sem, div')") (auto simp: tbl_preserved_refl)
  qed (simp add: tbl_preserved_refl)
  have "grids_clean (fts, dts1)"
    unfolding grids_clean_def
  proof (intro conjI allI impI)
    fix k e
    assume m: "map_of (snd (fts, dts1)) k = Some e"
    show "tbl_clean (d_table e)"
    proof (cases "k = (sem, div')")
      case False
      with m ensure_div_table_props(2) [OF en, of k] assms(2) ensure_division(1) show ?thesis
        by (cases k) (auto simp: grids_clean_def)
    next
      case True
      show ?thesis
      proof (cases "map_of dts (sem, div')")
        case None
        from ensure_div_table_props(4) [OF en None] ensure_div_table_props(1) [OF en] m True
        show ?thesis by (auto simp: mark_holidays_clean empty_table_clean)
      next
        case (Some e0)
        from ensure_div_table_props(3) [OF en Some] m True Some assms(2) ensure_division(1)
        show ?thesis by (auto simp: grids_clean_def)
      qed
    qed
  next
    fix k t
    assume "map_of (fst (fts, dts1)) k = Some t"
    with assms(2) ensure_division(1) show "tbl_clean t" by (auto simp: grids_clean_def)
  qed
  with k ensure_division en show ?thesis by simp
next
  case (lock_lab_call fts fname ftbl dts sem div' e fshift dshift sub batch r ok ftbl' dtbl' r')
  from placer_write_kept [OF _ lock_lab_call(4,5) lock_lab_step [OF lock_lab_call(6)]]
    assms(2) lock_lab_call(1,3)
  show ?thesis by simp
next
  case (lock_theory_call fts fname ftbl dts sem div' e fshift dshift sub r ok ftbl' dtbl' r')
  from placer_write_kept [OF _ lock_theory_call(4,5) lock_theory_step [OF lock_theory_call(6)]]
    assms(2) lock_theory_call(1,3)
  show ?thesis by simp
next
  case (force_lab_call fts fname ftbl dts sem div' e fshift dshift sub batch ok ftbl' dtbl')
  from placer_write_kept [OF _ force_lab_call(4,5) force_place_lab_step [OF force_lab_call(6)]]
    assms(2) force_lab_call(1,3)
  show ?thesis by simp
next
  case (force_theory_call fts fname ftbl dts sem div' e fshift dshift sub ok ftbl' dtbl')
  from placer_write_kept [OF _ force_theory_call(4,5)
      force_place_theory_step [OF force_theory_call(6)]]
    assms(2) force_theory_call(1,3)
  show ?thesis by simp
qed

lemma steps_kept:
  "engine_steps fds s cs s' \<Longrightarrow> grids_clean s \<Longrightarrow> cells_kept s s' \<and> grids_clean s'"
proof (induction rule: engine_steps.induct)
  case (no_call s)
  then show ?case by (simp add: cells_kept_refl)
next
  case (one_more s c s' cs s'')
  from step_kept [OF one_more(1) one_more(4)] one_more(3) show ?case
    by (blast intro: cells_kept_trans)
qed

lemma premarked_grids_clean:
  "grids_clean ([], apply_free_day_markings_from_inputs fds [] faculties)"
  using premark_clean [of "[]" fds faculties] by (simp add: grids_clean_def)

text \<open>
  C3, as the code has it. From the end of the free-day pre-marking on, a run is a sequence
  of calls (grid creations, lock calls and force calls) on the pre-marked stores, and the
  log holds the records of its placer calls. Along every such sequence of calls, between
  the stores \<open>s\<close> reached at any point and the stores \<open>s'\<close> reached at any later point,
  every grid is still there and every cell that holds a non-empty string in \<open>s\<close> holds the
  same string in \<open>s'\<close>: once a cell is non-empty, no later step writes it again. (The
  pre-marking itself is not covered: it overwrites the inert cells of a selected day.)
\<close>

theorem cells_never_rewritten_after_premarking:
  "(main_run seeded fds faculties = Inr st \<longrightarrow>
      (\<exists>cs. engine_steps fds ([], apply_free_day_markings_from_inputs fds [] faculties) cs
               (e_ftables st, e_dtables st) \<and>
             e_log st = concat (map call_events cs))) \<and>
   (\<forall>cs s cs' s'.
      engine_steps fds ([], apply_free_day_markings_from_inputs fds [] faculties) cs s \<longrightarrow>
      engine_steps fds s cs' s' \<longrightarrow> cells_kept s s')"
proof (intro conjI allI impI)
  assume "main_run seeded fds faculties = Inr st"
  then have "assign_all fds faculties
      \<lparr>e_ftables = [], e_dtables = apply_free_day_markings_from_inputs fds [] faculties,
       e_rng = seeded 7, e_log = []\<rparr> = Inr st"
    by (simp add: main_run_def)
  from assign_all_calls [OF this]
  show "\<exists>cs. engine_steps fds ([], apply_free_day_markings_from_inputs fds [] faculties) cs
                (e_ftables st, e_dtables st) \<and>
              e_log st = concat (map call_events cs)"
    by auto
next
  fix cs s cs' s'
  assume "engine_steps fds ([], apply_free_day_markings_from_inputs fds [] faculties) cs s"
  from steps_kept [OF this premarked_grids_clean] have "grids_clean s" by simp
  moreover assume "engine_steps fds s cs' s'"
  ultimately show "cells_kept s s'" using steps_kept by blast
qed

theorem cells_never_rewritten_after_premarking_witness:
  "\<exists>st cs. main_run (\<lambda>n. in_order) monday_free plan_one = Inr st \<and>
     engine_steps monday_free ([], apply_free_day_markings_from_inputs monday_free [] plan_one) cs
       (e_ftables st, e_dtables st) \<and>
     e_log st = concat (map call_events cs) \<and>
     cells_kept ([], apply_free_day_markings_from_inputs monday_free [] plan_one)
       (e_ftables st, e_dtables st)"
proof -
  have "\<forall>f \<in> set plan_one. \<forall>s \<in> set (Subjects f).
      Type s = LabT \<longrightarrow> \<not> (Batches_Grouped s \<and> Batches s = [])"
    by (simp add: plan_one_def faculty_of_def theory_of_def)
  then obtain st where r: "main_run (\<lambda>n. in_order) monday_free plan_one = Inr st"
    unfolding main_run_def using assign_all_total by blast
  let ?s0 = "([], apply_free_day_markings_from_inputs monday_free [] plan_one)"
  from cells_never_rewritten_after_premarking [of "\<lambda>n. in_order" monday_free plan_one st] r
  obtain cs where
    c: "engine_steps monday_free ?s0 cs (e_ftables st, e_dtables st)"
    "e_log st = concat (map call_events cs)"
    and k: "\<forall>cs s cs' s'. engine_steps monday_free ?s0 cs s \<longrightarrow>
              engine_steps monday_free s cs' s' \<longrightarrow> cells_kept s s'"
    by blast
  have "engine_steps monday_free ?s0 [] ?s0" by (rule no_call)
  with k c(1) have "cells_kept ?s0 (e_ftables st, e_dtables st)" by blast
  with r c show ?thesis by blast
qed

text \<open>
  C3, as stated, fails in the pre-marking: in the HTTP entry point the grids are created
  first, and the pre-marking then replaces a break label, a non-empty cell, by the
  holiday sentinel.
\<close>

theorem premarking_rewrites_cell_counterexample:
  "\<exists>e e'. map_of (snd (init_tables (settings_from_plan plan_holiday) ([], []) plan_holiday))
             (''3'', ''A'') = Some e \<and>
          map_of (apply_free_day_markings_from_inputs (settings_from_plan plan_holiday)
                    (snd (init_tables (settings_from_plan plan_holiday) ([], []) plan_holiday))
                    plan_holiday) (''3'', ''A'') = Some e' \<and>
          \<not> tbl_preserved (d_table e) (d_table e')"
proof -
  have a: "map_option (\<lambda>e. cell_get (d_table e) Mon ''9:45-10:00 Short Break'')
             (map_of (snd (init_tables (settings_from_plan plan_holiday) ([], []) plan_holiday))
                (''3'', ''A'')) = Some ''9:45-10:00 Short Break''"
    by code_simp
  have b: "map_option (\<lambda>e. cell_get (d_table e) Mon ''9:45-10:00 Short Break'')
             (map_of (apply_free_day_markings_from_inputs (settings_from_plan plan_holiday)
                    (snd (init_tables (settings_from_plan plan_holiday) ([], []) plan_holiday))
                    plan_holiday) (''3'', ''A''))
             = Some ''COMPETITIVE EXAM/SUNCLUBS/SPORT (Sem3 DivA)''"
    by code_simp
  from a obtain e where e: "map_of (snd (init_tables (settings_from_plan plan_holiday) ([], [])
      plan_holiday)) (''3'', ''A'') = Some e"
    "cell_get (d_table e) Mon ''9:45-10:00 Short Break'' = ''9:45-10:00 Short Break''"
    by auto
  from b obtain e' where e': "map_of (apply_free_day_markings_from_inputs
      (settings_from_plan plan_holiday)
      (snd (init_tables (settings_from_plan plan_holiday) ([], []) plan_holiday))
      plan_holiday) (''3'', ''A'') = Some e'"
    "cell_get (d_table e') Mon ''9:45-10:00 Short Break''
       = ''COMPETITIVE EXAM/SUNCLUBS/SPORT (Sem3 DivA)''"
    by auto
  from e(2) e'(2) have "\<not> tbl_preserved (d_table e) (d_table e')"
    unfolding tbl_preserved_def
    by (intro notI) (drule spec [of _ Mon], drule spec [of _ "''9:45-10:00 Short Break''"], simp)
  with e(1) e'(1) show ?thesis by blast
qed

subsection \<open>Shift-window admissibility of a run\<close>

lemma late_slot_iff: "late_slot slot \<longleftrightarrow> (\<exists>s e. slot_label_to_canonical slot = Inr (s, e) \<and> 600 \<le> s)"
  by (auto simp: late_slot_def split: sum.splits)

lemma tbl_late_refl: "tbl_late t t"
  by (simp add: tbl_late_def)

lemma tbl_late_trans: "tbl_late t t' \<Longrightarrow> tbl_late t' t'' \<Longrightarrow> tbl_late t t''"
  unfolding tbl_late_def by metis

lemma dts_late_refl: "dts_late fds dts dts"
  by (auto simp: dts_late_def tbl_late_refl split: option.splits)

lemma dts_late_trans:
  assumes "dts_late fds dts dts'" and "dts_late fds dts' dts''"
  shows "dts_late fds dts dts''"
  unfolding dts_late_def
proof
  fix k
  from assms(1) [unfolded dts_late_def] have a:
    "case map_of dts k of
       Some e \<Rightarrow> (\<exists>e'. map_of dts' k = Some e' \<and> d_shift e' = d_shift e \<and>
                      tbl_late (d_table e) (d_table e'))
     | None \<Rightarrow> (case map_of dts' k of None \<Rightarrow> True
                | Some e' \<Rightarrow> tbl_late (fresh_div_table fds k (d_shift e')) (d_table e'))"
    by (rule spec)
  from assms(2) [unfolded dts_late_def] have b:
    "case map_of dts' k of
       Some e \<Rightarrow> (\<exists>e'. map_of dts'' k = Some e' \<and> d_shift e' = d_shift e \<and>
                      tbl_late (d_table e) (d_table e'))
     | None \<Rightarrow> (case map_of dts'' k of None \<Rightarrow> True
                | Some e' \<Rightarrow> tbl_late (fresh_div_table fds k (d_shift e')) (d_table e'))"
    by (rule spec)
  show "case map_of dts k of
       Some e \<Rightarrow> (\<exists>e'. map_of dts'' k = Some e' \<and> d_shift e' = d_shift e \<and>
                      tbl_late (d_table e) (d_table e'))
     | None \<Rightarrow> (case map_of dts'' k of None \<Rightarrow> True
                | Some e' \<Rightarrow> tbl_late (fresh_div_table fds k (d_shift e')) (d_table e'))"
  proof (cases "map_of dts k")
    case None
    show ?thesis
    proof (cases "map_of dts' k")
      case n: None
      with None b show ?thesis by simp
    next
      case (Some e1)
      with a None have s1: "tbl_late (fresh_div_table fds k (d_shift e1)) (d_table e1)" by simp
      from b Some obtain e2 where "map_of dts'' k = Some e2" "d_shift e2 = d_shift e1"
        "tbl_late (d_table e1) (d_table e2)" by auto
      with s1 None show ?thesis by (auto intro: tbl_late_trans)
    qed
  next
    case (Some e)
    with a obtain e1 where e1: "map_of dts' k = Some e1" "d_shift e1 = d_shift e"
      "tbl_late (d_table e) (d_table e1)" by auto
    with b obtain e2 where "map_of dts'' k = Some e2" "d_shift e2 = d_shift e1"
      "tbl_late (d_table e1) (d_table e2)" by auto
    with e1 Some show ?thesis by (auto intro: tbl_late_trans)
  qed
qed

lemma lock_theory_late:
  "lock_theory fds ftbl dtbl S10_5 dshift fname sem div' sub avoid_dup r = (ok, ftbl', dtbl', r')
   \<Longrightarrow> tbl_late dtbl dtbl'"
  unfolding tbl_late_def late_slot_iff
  by (drule lock_theory_cases) (auto dest: theory_write_late_start)

lemma lock_lab_late:
  "lock_lab fds ftbl dtbl S10_5 dshift fname sem div' sub b avoid_dup r = (ok, ftbl', dtbl', r')
   \<Longrightarrow> tbl_late dtbl dtbl'"
  unfolding tbl_late_def late_slot_iff
  by (drule lock_lab_cases) (auto dest: lab_write_late_start)

lemma force_place_theory_late:
  "force_place_theory fds ftbl dtbl S10_5 dshift fname sem div' sub = (ok, ftbl', dtbl')
   \<Longrightarrow> tbl_late dtbl dtbl'"
  unfolding tbl_late_def late_slot_iff
  by (drule force_place_theory_cases) (auto dest: theory_write_late_start)

lemma force_place_lab_late:
  "force_place_lab fds ftbl dtbl S10_5 dshift fname sem div' sub b = (ok, ftbl', dtbl')
   \<Longrightarrow> tbl_late dtbl dtbl'"
  unfolding tbl_late_def late_slot_iff
  by (drule force_place_lab_cases) (auto dest: lab_write_late_start)

lemma placer_write_late:
  assumes "map_of dts (sem, div') = Some e" and "tbl_late (d_table e) dtbl'"
  shows "dts_late fds dts (dtables_put dts sem div' dtbl')"
  unfolding dts_late_def
proof
  fix k
  from assms show "case map_of dts k of
       Some e \<Rightarrow> (\<exists>e'. map_of (dtables_put dts sem div' dtbl') k = Some e' \<and>
                      d_shift e' = d_shift e \<and> tbl_late (d_table e) (d_table e'))
     | None \<Rightarrow> (case map_of (dtables_put dts sem div' dtbl') k of None \<Rightarrow> True
                | Some e' \<Rightarrow> tbl_late (fresh_div_table fds k (d_shift e')) (d_table e'))"
    by (cases "k = (sem, div')") (auto simp: map_of_dtables_put tbl_late_refl split: option.splits)
qed

lemma ensure_division_late: "dts_late fds dts (fst (ensure_div_table fds dts sem div' dshift))"
  unfolding dts_late_def
proof
  fix k
  obtain dts1 dtbl sh' where
    en: "ensure_div_table fds dts sem div' dshift = (dts1, dtbl, sh')"
    by (cases "ensure_div_table fds dts sem div' dshift") auto
  have "case map_of dts k of
       Some e \<Rightarrow> (\<exists>e'. map_of dts1 k = Some e' \<and>
                      d_shift e' = d_shift e \<and> tbl_late (d_table e) (d_table e'))
     | None \<Rightarrow> (case map_of dts1 k of None \<Rightarrow> True
                | Some e' \<Rightarrow> tbl_late (fresh_div_table fds k (d_shift e')) (d_table e'))"
  proof (cases "k = (sem, div')")
    case False
    with ensure_div_table_props(2) [OF en, of k] show ?thesis
      by (auto simp: tbl_late_refl split: option.splits)
  next
    case True
    show ?thesis
    proof (cases "map_of dts (sem, div')")
      case None
      from ensure_div_table_props(4) [OF en None] ensure_div_table_props(1) [OF en] True None
      show ?thesis by (auto simp: fresh_div_table_def tbl_late_refl)
    next
      case (Some e0)
      from ensure_div_table_props(3) [OF en Some] True Some
      show ?thesis by (auto simp: tbl_late_refl)
    qed
  qed
  with en show "case map_of dts k of
       Some e \<Rightarrow> (\<exists>e'. map_of (fst (ensure_div_table fds dts sem div' dshift)) k = Some e' \<and>
                      d_shift e' = d_shift e \<and> tbl_late (d_table e) (d_table e'))
     | None \<Rightarrow> (case map_of (fst (ensure_div_table fds dts sem div' dshift)) k of None \<Rightarrow> True
                | Some e' \<Rightarrow> tbl_late (fresh_div_table fds k (d_shift e')) (d_table e'))"
    by (simp cong: option.case_cong)
qed

lemma step_late:
  assumes "engine_step fds s c s'" and "late_calls [c]"
  shows "dts_late fds (snd s) (snd s')"
  using assms
proof (cases rule: engine_step.cases)
  case (ensure_faculty fts fname fshift dts)
  then show ?thesis by (simp add: dts_late_refl)
next
  case (ensure_division fts dts sem div' dshift)
  then show ?thesis by (simp add: ensure_division_late)
next
  case (lock_lab_call fts fname ftbl dts sem div' e fshift dshift sub batch r ok ftbl' dtbl' r')
  with assms(2) have "tbl_late (d_table e) dtbl'"
    by (auto simp: late_calls_def dest: lock_lab_late)
  with lock_lab_call show ?thesis by (simp add: placer_write_late)
next
  case (lock_theory_call fts fname ftbl dts sem div' e fshift dshift sub r ok ftbl' dtbl' r')
  with assms(2) have "tbl_late (d_table e) dtbl'"
    by (auto simp: late_calls_def dest: lock_theory_late)
  with lock_theory_call show ?thesis by (simp add: placer_write_late)
next
  case (force_lab_call fts fname ftbl dts sem div' e fshift dshift sub batch ok ftbl' dtbl')
  with assms(2) have "tbl_late (d_table e) dtbl'"
    by (auto simp: late_calls_def dest: force_place_lab_late)
  with force_lab_call show ?thesis by (simp add: placer_write_late)
next
  case (force_theory_call fts fname ftbl dts sem div' e fshift dshift sub ok ftbl' dtbl')
  with assms(2) have "tbl_late (d_table e) dtbl'"
    by (auto simp: late_calls_def dest: force_place_theory_late)
  with force_theory_call show ?thesis by (simp add: placer_write_late)
qed

lemma steps_late:
  "engine_steps fds s cs s' \<Longrightarrow> late_calls cs \<Longrightarrow> dts_late fds (snd s) (snd s')"
proof (induction rule: engine_steps.induct)
  case (no_call s)
  then show ?case by (simp add: dts_late_refl)
next
  case (one_more s c s' cs s'')
  then have "late_calls [c]" "late_calls cs" by (simp_all add: late_calls_def)
  with one_more step_late [OF one_more(1)] show ?case by (blast intro: dts_late_trans)
qed

lemma faculty_calls_late:
  assumes "faculty_calls f cs" and "Shift f = S10_5"
  shows "late_calls cs"
proof -
  from assms(1) obtain tos fos where a: "map fst tos = lock_tasks f" "map fst fos = failed tos"
    "filter is_placer cs = map (\<lambda>(t, ok). Lock t ok) tos @ map (\<lambda>(t, ok). Force t ok) fos"
    unfolding faculty_calls_def by blast
  have t: "task_fshift t = S10_5" if "t \<in> fst ` set tos \<or> t \<in> fst ` set fos" for t
  proof -
    from that a(1,2) failed_subset [of tos] have "t \<in> set (lock_tasks f)"
      by (metis set_map subsetD)
    with assms(2) show ?thesis by (simp add: lock_tasks_fields)
  qed
  have "case c of Lock t _ \<Rightarrow> task_fshift t = S10_5 | Force t _ \<Rightarrow> task_fshift t = S10_5
               | _ \<Rightarrow> True" if "c \<in> set cs" for c
  proof (cases "is_placer c")
    case False
    then show ?thesis by (cases c) simp_all
  next
    case True
    with that have "c \<in> set (filter is_placer cs)" by simp
    then have "c \<in> (\<lambda>(t, ok). Lock t ok) ` set tos \<or> c \<in> (\<lambda>(t, ok). Force t ok) ` set fos"
      unfolding a(3) by auto
    then show ?thesis using t by (auto simp: image_iff) force+
  qed
  then show ?thesis by (simp add: late_calls_def list_all_iff)
qed

lemma assign_all_append:
  "assign_all fds (xs @ ys) st =
     (case assign_all fds xs st of Inl err \<Rightarrow> Inl err | Inr st1 \<Rightarrow> assign_all fds ys st1)"
  by (induction xs arbitrary: st) (auto split: sum.splits)

text \<open>
  C4. In any engine run, for a faculty \<open>f\<close> whose shift is 10-5, the run reaches the call
  of \<open>assign_subjects_for_faculty\<close> for \<open>f\<close>, and every cell of a division grid that this
  call changes, through the lock pass, its fallback, the tight force pass or the relaxed
  force pass (for labs too, where the relaxed pass does not call the admissibility test),
  is at a slot label whose canonical start is at least 600 minutes. The driver passes
  \<open>Shift f\<close> to the lock placers and the \<open>FShift\<close> of the task, which is \<open>Shift f\<close>, to the
  force placers. This holds for a division grid of any shift, the 8-3 shift in particular,
  and for a grid created during the call, compared with the grid as it was created.
\<close>

theorem late_faculty_writes_start_at_ten:
  assumes "main_run seeded fds (earlier @ f # later) = Inr st" and "Shift f = S10_5"
  shows "\<exists>st1 st2.
           assign_all fds earlier
             \<lparr>e_ftables = [],
              e_dtables = apply_free_day_markings_from_inputs fds [] (earlier @ f # later),
              e_rng = seeded 7, e_log = []\<rparr> = Inr st1 \<and>
           assign_subjects_for_faculty fds f st1 = Inr st2 \<and>
           assign_all fds later st2 = Inr st \<and>
           dts_late fds (e_dtables st1) (e_dtables st2)"
proof -
  let ?st0 = "\<lparr>e_ftables = [],
              e_dtables = apply_free_day_markings_from_inputs fds [] (earlier @ f # later),
              e_rng = seeded 7, e_log = []\<rparr>"
  from assms(1) have "assign_all fds (earlier @ f # later) ?st0 = Inr st"
    by (simp add: main_run_def)
  then obtain st1 st2 where a: "assign_all fds earlier ?st0 = Inr st1"
    "assign_subjects_for_faculty fds f st1 = Inr st2" "assign_all fds later st2 = Inr st"
    by (auto simp: assign_all_append split: sum.splits)
  from assign_calls [OF a(2)] obtain cs where
    "engine_steps fds (e_ftables st1, e_dtables st1) cs (e_ftables st2, e_dtables st2)"
    "faculty_calls f cs" by blast
  with assms(2) have "dts_late fds (e_dtables st1) (e_dtables st2)"
    using steps_late faculty_calls_late by fastforce
  with a show ?thesis by blast
qed

text \<open>
  A run with one faculty of the 10-5 shift and one theory class for a division of the 8-3
  shift: the class is placed on Monday at 10:00-11:00.
\<close>

lemma late_lock:
  "fst (lock_theory [] (empty_table_for_shift S10_5) (empty_table_for_shift S8_3) S10_5 S8_3
          ''F'' ''3'' ''A'' ''X'' True in_order)"
  "cell_get (fst (snd (snd (lock_theory [] (empty_table_for_shift S10_5)
      (empty_table_for_shift S8_3) S10_5 S8_3 ''F'' ''3'' ''A'' ''X'' True in_order)))) Mon
      ''10:00-11:00'' = ''X (F)''"
  by code_simp+

lemma late_run:
  "\<exists>st e. main_run (\<lambda>n. in_order) [] [late_faculty] = Inr st \<and>
     map_of (e_dtables st) (''3'', ''A'') = Some e \<and>
     cell_get (d_table e) Mon ''10:00-11:00'' = ''X (F)''"
proof -
  obtain ok ft dt r1 where l: "lock_theory [] (empty_table_for_shift S10_5)
      (empty_table_for_shift S8_3) S10_5 S8_3 ''F'' ''3'' ''A'' ''X'' True in_order
      = (ok, ft, dt, r1)"
    by (metis prod_cases4)
  with late_lock have ok: "ok" and c: "cell_get dt Mon ''10:00-11:00'' = ''X (F)''" by simp_all
  have "main_run (\<lambda>n. in_order) [] [late_faculty] =
          Inr \<lparr>e_ftables = [(''F'', ft)],
               e_dtables = [((''3'', ''A''), \<lparr>d_shift = S8_3, d_table = dt\<rparr>)],
               e_rng = r1, e_log = [LockTheory ''F'' True]\<rparr>"
    by (simp add: main_run_def apply_free_day_markings_from_inputs_def late_faculty_def
          faculty_of_def theory_of_def assign_subjects_for_faculty_def theory_entry_def
          ensure_div_table_def fds_get_def mark_holidays_def dtables_put_def l ok Let_def)
  with c show ?thesis by simp
qed

theorem late_faculty_writes_start_at_ten_witness:
  "\<exists>st st1 st2 e.
     main_run (\<lambda>n. in_order) [] ([] @ late_faculty # []) = Inr st \<and>
     Shift late_faculty = S10_5 \<and>
     assign_all [] []
       \<lparr>e_ftables = [],
        e_dtables = apply_free_day_markings_from_inputs [] [] ([] @ late_faculty # []),
        e_rng = in_order, e_log = []\<rparr> = Inr st1 \<and>
     assign_subjects_for_faculty [] late_faculty st1 = Inr st2 \<and>
     assign_all [] [] st2 = Inr st \<and>
     dts_late [] (e_dtables st1) (e_dtables st2) \<and>
     map_of (e_dtables st1) (''3'', ''A'') = None \<and>
     map_of (e_dtables st2) (''3'', ''A'') = Some e \<and>
     cell_get (d_table e) Mon ''10:00-11:00'' = ''X (F)'' \<and>
     late_slot ''10:00-11:00''"
proof -
  obtain st e where r: "main_run (\<lambda>n. in_order) [] ([] @ late_faculty # []) = Inr st"
    and e: "map_of (e_dtables st) (''3'', ''A'') = Some e"
    "cell_get (d_table e) Mon ''10:00-11:00'' = ''X (F)''"
    using late_run by auto
  have s: "Shift late_faculty = S10_5" by (simp add: late_faculty_def faculty_of_def)
  from late_faculty_writes_start_at_ten [OF r s] obtain st1 st2 where
    a: "assign_all [] []
       \<lparr>e_ftables = [],
        e_dtables = apply_free_day_markings_from_inputs [] [] ([] @ late_faculty # []),
        e_rng = in_order, e_log = []\<rparr> = Inr st1"
    "assign_subjects_for_faculty [] late_faculty st1 = Inr st2"
    "assign_all [] [] st2 = Inr st"
    "dts_late [] (e_dtables st1) (e_dtables st2)"
    by blast
  from a(1) have n: "map_of (e_dtables st1) (''3'', ''A'') = None"
    by (auto simp: apply_free_day_markings_from_inputs_def)
  from a(3) have "st2 = st" by simp
  moreover have "late_slot ''10:00-11:00''" by code_simp
  ultimately show ?thesis using r s a n e by blast
qed

subsection \<open>Reproducibility\<close>

text \<open>
  C9. A run is a function of the plan, the settings and the seed. For the command line
  this is what \<open>main_run\<close> takes; for the HTTP entry point it means that the response,
  with the faculty grids and the division grids of the run, does not depend on what
  earlier requests left in the module-level stores, settings and generator.
\<close>

theorem runs_reproducible:
  "generate seeded g1 faculties = generate seeded g2 faculties"
  by (simp add: generate_def Let_def split: prod.splits sum.splits)

subsection \<open>Holidays and the lock fallback\<close>

lemma keys_foldl_teaching:
  "slot_keys (foldl (\<lambda>t slot. if is_inert slot then t else cell_set t d slot v) t ks) d'
     \<subseteq> slot_keys t d' \<union> set ks"
  by (induction ks arbitrary: t rule: rev_induct) (auto simp: keys_cell_set split: if_splits)

lemma keys_empty_table: "slot_keys (empty_table_for_shift sh) d \<subseteq> set (SHIFT_SLOTS sh)"
proof -
  have "slot_keys (foldl (\<lambda>tbl d. foldl (\<lambda>tbl s. cell_set tbl d s (if is_inert s then s else []))
              tbl (SHIFT_SLOTS sh)) t ds) d \<subseteq> slot_keys t d \<union> set (SHIFT_SLOTS sh)" for t ds
  proof (induction ds arbitrary: t rule: rev_induct)
    case Nil
    then show ?case by simp
  next
    case (snoc x xs)
    have "slot_keys (foldl (\<lambda>tbl s. cell_set tbl x s (w s)) t' ks) d \<subseteq> slot_keys t' d \<union> set ks"
      for t' ks and w :: "string \<Rightarrow> string"
      by (induction ks arbitrary: t' rule: rev_induct) (auto simp: keys_cell_set split: if_splits)
    with snoc [of t] show ?case by fastforce
  qed
  from this [of "Table [] [] [] [] [] []" DAYS] show ?thesis
    by (cases d) (auto simp: empty_table_for_shift_def slot_keys_def)
qed

lemma keys_mark_holidays:
  "slot_keys (mark_holidays t sh sem div' hs) d \<subseteq> slot_keys t d \<union> set (SHIFT_SLOTS sh)"
  unfolding mark_holidays_def
proof (induction hs arbitrary: t rule: rev_induct)
  case Nil
  then show ?case by simp
next
  case (snoc x xs)
  from snoc [of t] keys_foldl_teaching [of x "holiday_text sem div'" _ "SHIFT_SLOTS sh" d]
  show ?case by fastforce
qed

lemma premarked_foreign_label_free:
  assumes "s \<notin> set (SHIFT_SLOTS sh)"
  shows "free_slot (mark_whole_days (mark_holidays (empty_table_for_shift sh) sh sem div' hs)
                     sem2 div2 days) d s"
proof -
  from assms keys_mark_holidays [of "empty_table_for_shift sh" sh sem div' hs d]
    keys_empty_table [of sh d]
  have "s \<notin> slot_keys (mark_holidays (empty_table_for_shift sh) sh sem div' hs) d" by auto
  with assms show ?thesis
    by (simp add: free_slot_strip mark_whole_days_cell cell_get_mark_holidays
          cell_get_empty_table_for_shift strip_def)
qed

lemma sample_in_order: "sample in_order = (DAYS, in_order)"
  by (simp add: sample_def in_order_def)

lemma all_week_holiday: "is_division_holiday all_week_free ''3'' ''A'' d"
  by (simp add: is_division_holiday_def fds_get_def normalize_A all_week_free_def all_days)

lemma first_slot_facts:
  "\<not> is_inert ''8-8:45''"
  "slots_equivalent S8_3 ''8-8:45'' S8_3 ''8-8:45''"
  by code_simp+

lemma premark_mixed:
  "apply_free_day_markings_from_inputs all_week_free [] plan_mixed =
     [((''3'', ''A''),
       \<lparr>d_shift = S10_5,
        d_table = mark_whole_days
                    (mark_holidays (empty_table_for_shift S10_5) S10_5 ''3'' ''A'' DAYS)
                    ''3'' ''A'' DAYS\<rparr>)]"
  by (simp add: apply_free_day_markings_from_inputs_def all_week_free_def plan_mixed_def
        faculty_of_def theory_of_def div_shift_map_def ensure_div_table_def fds_get_def
        normalize_A dtables_put_def Let_def)

text \<open>
  The run at the failing input: Sem 3 Div A is free all week; its grid is created for the
  10-5 shift of the first obligation; the second obligation names the 8-3 shift.
\<close>

lemma mixed_shift_run:
  "\<exists>st e. main_run (\<lambda>n. in_order) all_week_free plan_mixed = Inr st \<and>
     map_of (e_dtables st) (''3'', ''A'') = Some e \<and>
     cell_get (d_table e) Mon ''8-8:45'' = theory_dtext ''Y'' ''F'' \<and>
     e_log st = [LockTheory ''F'' False, LockTheory ''F'' True, ForceTheory ''F'' False]"
proof -
  define T where "T = mark_whole_days
                    (mark_holidays (empty_table_for_shift S10_5) S10_5 ''3'' ''A'' DAYS)
                    ''3'' ''A'' DAYS"
  define F0 where "F0 = empty_table_for_shift S8_3"
  define F1 where "F1 = cell_set F0 Mon ''8-8:45'' (theory_ftext ''Y'' ''3'' ''A'')"
  define T1 where "T1 = cell_set T Mon ''8-8:45'' (theory_dtext ''Y'' ''F'')"
  have nf: "\<forall>d. \<forall>s \<in> set (SHIFT_SLOTS S10_5). \<not> free_slot T d s"
    unfolding T_def using premarked_no_free by blast
  have nf1: "\<forall>d. \<forall>s \<in> set (SHIFT_SLOTS S10_5). \<not> free_slot T1 d s"
    using nf placed_text_not_blank(4) [of "''Y''" "''F''"]
    by (auto simp: T1_def free_slot_strip cell_get_cell_set)
  have lt: "lock_theory fds ftbl T S8_3 S10_5 fname ''3'' ''A'' sub True r =
              (False, ftbl, T, snd (sample (snd (sample r))))" for fds ftbl fname sub r
    using nf by (intro lock_theory_fails) blast
  have ft: "force_place_theory fds ftbl T1 S8_3 S10_5 fname ''3'' ''A'' sub = (False, ftbl, T1)"
    for fds ftbl fname sub
    using nf1 by (intro force_place_theory_fails) blast
  have ff: "free_slot F0 Mon ''8-8:45''"
    by (simp add: F0_def free_slot_strip cell_get_empty_table_for_shift first_slot_facts strip_def)
  have fd: "free_slot T Mon ''8-8:45''"
    unfolding T_def by (rule premarked_foreign_label_free) simp
  have scan: "theory_scan_day F0 T S8_3 S8_3 Mon = Some (Mon, ''8-8:45'', Mon, ''8-8:45'')"
    by (simp add: theory_scan_day_def ff fd first_slot_facts division_slot_allowed_for_faculty_def)
  have "first_some (\<lambda>d.
          if True \<and> day_has_division T d ''3'' ''A'' then None
          else if True \<and> day_has_subject T d ''Y'' then None
          else if is_division_holiday all_week_free ''3'' ''A'' d then None
          else theory_scan_day F0 T S8_3 S8_3 d) DAYS = None"
    by (rule first_some_NoneI) (simp add: all_week_holiday)
  moreover have "first_some (theory_scan_day F0 T S8_3 S8_3) DAYS
                   = Some (Mon, ''8-8:45'', Mon, ''8-8:45'')"
    by (simp add: DAYS_def scan)
  ultimately have l2: "lock_theory all_week_free F0 T S8_3 S8_3 ''F'' ''3'' ''A'' ''Y'' True in_order
                = (True, F1, T1, in_order)"
    by (simp add: lock_theory_def sample_in_order write_theory_def F1_def T1_def)
  have pm: "apply_free_day_markings_from_inputs all_week_free [] plan_mixed =
     [((''3'', ''A''), \<lparr>d_shift = S10_5, d_table = T\<rparr>)]"
    unfolding T_def by (rule premark_mixed)
  have "main_run (\<lambda>n. in_order) all_week_free plan_mixed =
          Inr \<lparr>e_ftables = [(''F'', F1)],
               e_dtables = [((''3'', ''A''), \<lparr>d_shift = S10_5, d_table = T1\<rparr>)],
               e_rng = in_order,
               e_log = [LockTheory ''F'' False, LockTheory ''F'' True, ForceTheory ''F'' False]\<rparr>"
    unfolding main_run_def pm
    by (simp add: plan_mixed_def faculty_of_def theory_of_def assign_subjects_for_faculty_def
          theory_entry_def ensure_div_table_def dtables_put_def lt ft l2 Let_def
          sample_in_order F0_def [symmetric])
  moreover have "cell_get T1 Mon ''8-8:45'' = theory_dtext ''Y'' ''F''"
    by (simp add: T1_def cell_get_cell_set)
  ultimately show ?thesis by simp
qed

text \<open>
  C5 at the failing input. Monday is a free day of Sem 3 Div A, and after the run the
  division grid holds the placement \<open>Y (F)\<close> at Monday's 8-8:45, a teaching slot: the log
  shows that it was written by the lock pass (its fallback loop, which has no holiday
  test), the force pass having placed nothing.
\<close>

theorem lock_fallback_places_on_holiday:
  "\<exists>st e. main_run (\<lambda>n. in_order) all_week_free plan_mixed = Inr st \<and>
     map_of (e_dtables st) (''3'', ''A'') = Some e \<and>
     is_division_holiday all_week_free ''3'' ''A'' Mon \<and>
     \<not> is_inert ''8-8:45'' \<and>
     cell_get (d_table e) Mon ''8-8:45'' = ''Y (F)'' \<and>
     e_log st = [LockTheory ''F'' False, LockTheory ''F'' True, ForceTheory ''F'' False]"
  using mixed_shift_run all_week_holiday [of Mon] first_slot_facts(1)
  by (auto simp: theory_dtext_def)

end
